theory Spec2Isabelle
  imports Main "HOL-Library.Log_Nat"
begin

section \<open>Values, strings and numbers of the host language\<close>

text \<open>
  The model of \<^verbatim>\<open>src/js/pdfParser.js\<close>. Strings are lists of 8-bit code units (the
  Latin-1 range of the UTF-16 code units of a JavaScript string). A thrown value is either
  an instance of \<^verbatim>\<open>Error\<close> with its \<^verbatim>\<open>message\<close>, or any other value, kept as
  its \<^verbatim>\<open>String(...)\<close> rendering. A promise that rejects and a call that throws are
  both \<open>Inl\<close>. \<^verbatim>\<open>console.warn\<close> changes nothing that the functions return or store
  and is left out; \<^verbatim>\<open>pdf.cleanup()\<close> is taken to return.
\<close>

datatype js_thrown = JsError string | NonError string

definition is_space :: "char \<Rightarrow> bool" where
  \<comment> \<open>the class \<^verbatim>\<open>\s\<close> of a regular expression, which is also what \<^verbatim>\<open>trim\<close> strips\<close>
  "is_space c = (c \<in> {CHR 0x09, CHR 0x0A, CHR 0x0B, CHR 0x0C, CHR 0x0D, CHR 0x20, CHR 0xA0})"

definition is_digit :: "char \<Rightarrow> bool" where
  \<comment> \<open>the class \<^verbatim>\<open>\d\<close>\<close>
  "is_digit c = (c \<in> set ''0123456789'')"

definition upper :: "char \<Rightarrow> char" where
  \<comment> \<open>upper case of the letters a-z. The patterns matched under the flag \<^verbatim>\<open>i\<close> are
     ASCII, and a code unit matches an ASCII character under that flag exactly when both
     have the same image here\<close>
  "upper c =
     (if (97::nat) \<le> of_char c \<and> of_char c \<le> (122::nat) then char_of (of_char c - (32::nat))
      else c)"

fun join :: "string \<Rightarrow> string list \<Rightarrow> string" where
  "join sep [] = []"
| "join sep [x] = x"
| "join sep (x # y # ys) = x @ sep @ join sep (y # ys)"

function collapse_spaces :: "string \<Rightarrow> string" where
  \<comment> \<open>\<^verbatim>\<open>s.replace(/\s+/g, ' ')\<close>\<close>
  "collapse_spaces [] = []"
| "collapse_spaces (c # cs) =
     (if is_space c then CHR '' '' # collapse_spaces (dropWhile is_space cs)
      else c # collapse_spaces cs)"
  by pat_completeness auto
termination
  by (relation "measure length") (auto simp: less_Suc_eq_le length_dropWhile_le)

definition trim :: "string \<Rightarrow> string" where
  "trim s = rev (dropWhile is_space (rev (dropWhile is_space s)))"

fun starts_with_ci :: "string \<Rightarrow> string \<Rightarrow> bool" where
  "starts_with_ci [] s = True"
| "starts_with_ci (p # ps) [] = False"
| "starts_with_ci (p # ps) (c # cs) = (upper p = upper c \<and> starts_with_ci ps cs)"

fun test_ci :: "string \<Rightarrow> string \<Rightarrow> bool" where
  \<comment> \<open>\<^verbatim>\<open>/pat/i.test(s)\<close> for a pattern of literal characters\<close>
  "test_ci pat [] = starts_with_ci pat []"
| "test_ci pat (c # cs) = (starts_with_ci pat (c # cs) \<or> test_ci pat cs)"

subsection \<open>Numbers: double precision arithmetic and \<^verbatim>\<open>Math.round\<close>\<close>

text \<open>
  The operands that occur are positive and far from the limits of the exponent range, so
  the model of round-to-nearest, ties-to-even has 53 significant bits and an unbounded
  exponent. Page counts are natural numbers; the model is that of the code for every
  page count below \<open>2^53\<close>.
\<close>

definition round_half_even :: "rat \<Rightarrow> int" where
  "round_half_even x =
     (let f = \<lfloor>x\<rfloor>; d = x - of_int f
      in if d < 1 / 2 then f else if 1 / 2 < d then f + 1 else if even f then f else f + 1)"

definition binade :: "rat \<Rightarrow> int" where
  \<comment> \<open>for \<open>0 < x\<close>, the exponent \<open>e\<close> with \<open>2^e \<le> x < 2^(e+1)\<close>\<close>
  "binade x =
     (let (a, b) = quotient_of x; k = bitlen a - bitlen b
      in if 2 powi k \<le> x then k else k - 1)"

definition fl :: "rat \<Rightarrow> rat" where
  \<comment> \<open>the double nearest to \<open>x\<close>\<close>
  "fl x =
     (if x = 0 then 0
      else let q = 2 powi (binade \<bar>x\<bar> - 52)
           in sgn x * (of_int (round_half_even (\<bar>x\<bar> / q)) * q))"

definition Math_round :: "rat \<Rightarrow> int" where
  \<comment> \<open>the nearest integer, a tie going up\<close>
  "Math_round x = \<lfloor>x + 1 / 2\<rfloor>"

definition progressPercent :: "nat \<Rightarrow> nat \<Rightarrow> int" where
  \<comment> \<open>\<^verbatim>\<open>Math.round((pageIndex / totalPages) * 100)\<close>\<close>
  "progressPercent pageIndex totalPages =
     Math_round (fl (fl (of_nat pageIndex / of_nat totalPages) * 100))"

section \<open>The PDF library, the environment and the state\<close>

record text_item =
  str :: "string option"

record text_content =
  items :: "text_item list"

record pdf_page =
  getTextContent :: "js_thrown + text_content"

record pdf_info =
  Title :: "string option"
  Author :: "string option"

record pdf_metadata =
  info :: "pdf_info option"

text \<open>
  A document session. \<open>Inl\<close> is a rejected promise; \<open>getMetadata\<close> resolving to
  \<open>Inr None\<close> is a falsy value.
\<close>

record pdf_document =
  numPages :: nat
  getPage :: "nat \<Rightarrow> js_thrown + pdf_page"
  getMetadata :: "js_thrown + pdf_metadata option"

record worker_options =
  workerSrc :: "string option"

text \<open>
  \<open>disableWorker\<close> is \<open>Some b\<close> when the library has that property and its type is
  boolean, \<open>None\<close> otherwise.
\<close>

record pdfjs =
  GlobalWorkerOptions :: "worker_options option"
  disableWorker :: "bool option"

datatype promise = Pending | Fulfilled | Rejected js_thrown

text \<open>
  The mutable state: \<^verbatim>\<open>window.pdfjsLib\<close>, \<^verbatim>\<open>window.__pdfWorkerBlobUrl\<close>, the
  module's \<^verbatim>\<open>pdfWorkerReadyPromise\<close>, and what an observer of the collaborators sees:
  how often the body of the provisioning promise was started, how often \<^verbatim>\<open>fetch\<close> and
  \<^verbatim>\<open>getDocument\<close> were called, which pages were requested, the values passed to
  \<^verbatim>\<open>onProgress\<close>, and how often \<^verbatim>\<open>cleanup\<close> was called.
\<close>

record world =
  pdfjsLib :: "pdfjs option"
  pdfWorkerBlobUrl :: "string option"
  pdfWorkerReadyPromise :: "promise option"
  provisioningAttempts :: nat
  fetchCalls :: nat
  getDocumentCalls :: nat
  pageRequests :: "nat list"
  progressCalls :: "int list"
  cleanupCalls :: nat

record response =
  ok :: bool
  status :: nat
  responseText :: "js_thrown + string"

text \<open>
  What the environment answers. \<open>getDocument\<close> may depend on how many calls came
  before, on the library's \<open>disableWorker\<close> and on the bytes.
\<close>

record environment =
  hasFetch :: bool
  hasBlob :: bool
  hasURL :: bool
  hasCreateObjectURL :: bool
  fetch :: "js_thrown + response"
  createObjectURL :: "string \<Rightarrow> js_thrown + string"
  getDocument :: "nat \<Rightarrow> bool option \<Rightarrow> nat list \<Rightarrow> js_thrown + pdf_document"

record pdf_file =
  name :: string
  size' :: nat
  lastModified' :: int
  arrayBuffer :: "js_thrown + nat list"

record page_result =
  index :: nat
  text' :: string
  hasTextContent :: bool
  error :: "string option"

record document_result =
  title :: string
  author :: string
  totalPages :: nat
  pages :: "page_result list"
  rawSize :: nat
  lastModified :: int

section \<open>The Worker Provisioner\<close>

definition PDF_WORKER_SOURCE :: string where
  "PDF_WORKER_SOURCE = ''https://cdnjs.cloudflare.com/ajax/libs/pdf.js/3.4.120/pdf.worker.min.js''"

definition truthy :: "string option \<Rightarrow> bool" where
  \<comment> \<open>a string-valued slot as a condition: absent and the empty string are falsy\<close>
  "truthy v = (case v of None \<Rightarrow> False | Some s \<Rightarrow> s \<noteq> [])"

definition or_else :: "string option \<Rightarrow> string \<Rightarrow> string" where
  \<comment> \<open>\<^verbatim>\<open>v || d\<close>\<close>
  "or_else v d = (case v of None \<Rightarrow> d | Some s \<Rightarrow> if s \<noteq> [] then s else d)"

definition currentWorker :: "world \<Rightarrow> string option" where
  \<comment> \<open>\<^verbatim>\<open>window.pdfjsLib.GlobalWorkerOptions?.workerSrc\<close>\<close>
  "currentWorker w =
     (case pdfjsLib w of
        None \<Rightarrow> None
      | Some lib \<Rightarrow> (case GlobalWorkerOptions lib of None \<Rightarrow> None | Some opts \<Rightarrow> workerSrc opts))"

definition setWorkerSrc :: "string \<Rightarrow> world \<Rightarrow> js_thrown + world" where
  \<comment> \<open>\<^verbatim>\<open>window.pdfjsLib.GlobalWorkerOptions.workerSrc = url\<close>: a TypeError when the
     object to assign to is missing\<close>
  "setWorkerSrc url w =
     (case pdfjsLib w of
        None \<Rightarrow> Inl (JsError ''Cannot read properties of undefined'')
      | Some lib \<Rightarrow>
          (case GlobalWorkerOptions lib of
             None \<Rightarrow> Inl (JsError ''Cannot set properties of undefined'')
           | Some opts \<Rightarrow>
               Inr (w\<lparr>pdfjsLib :=
                        Some (lib\<lparr>GlobalWorkerOptions := Some (opts\<lparr>workerSrc := Some url\<rparr>)\<rparr>)\<rparr>)))"

definition settle :: "js_thrown + world \<Rightarrow> world \<Rightarrow> world" where
  \<comment> \<open>the promise of the provisioning body settles\<close>
  "settle r w =
     (case r of
        Inl e \<Rightarrow> w\<lparr>pdfWorkerReadyPromise := Some (Rejected e)\<rparr>
      | Inr w' \<Rightarrow> w'\<lparr>pdfWorkerReadyPromise := Some Fulfilled\<rparr>)"

definition useFallbackWorker :: "world \<Rightarrow> world" where
  \<comment> \<open>line 39, the last statement of the provisioning body\<close>
  "useFallbackWorker w = settle (setWorkerSrc (or_else (pdfWorkerBlobUrl w) PDF_WORKER_SOURCE) w) w"

definition canInlineWorker :: "environment \<Rightarrow> bool" where
  "canInlineWorker env = (hasFetch env \<and> hasBlob env \<and> hasURL env \<and> hasCreateObjectURL env)"

definition inlineWorker :: "environment \<Rightarrow> world \<Rightarrow> world" where
  \<comment> \<open>lines 24-39, once the promise of \<^verbatim>\<open>fetch\<close> has settled; every exception of the
     \<^verbatim>\<open>try\<close> block leads to line 39\<close>
  "inlineWorker env w =
     (case fetch env of
        Inl e \<Rightarrow> useFallbackWorker w
      | Inr response \<Rightarrow>
          if \<not> ok response then useFallbackWorker w
          else (case responseText response of
                  Inl e \<Rightarrow> useFallbackWorker w
                | Inr script \<Rightarrow>
                    (case createObjectURL env script of
                       Inl e \<Rightarrow> useFallbackWorker w
                     | Inr blobUrl \<Rightarrow>
                         (let w1 = w\<lparr>pdfWorkerBlobUrl := Some blobUrl\<rparr>
                          in case setWorkerSrc blobUrl w1 of
                               Inl e \<Rightarrow> useFallbackWorker w1
                             | Inr w2 \<Rightarrow> settle (Inr w2) w1))))"

definition startProvisioning :: "environment \<Rightarrow> world \<Rightarrow> world" where
  \<comment> \<open>lines 16-40 up to the first \<^verbatim>\<open>await\<close>: the body runs at once, as far as the call
     of \<^verbatim>\<open>fetch\<close> when the worker can be inlined, to its end otherwise\<close>
  "startProvisioning env w =
     (let w1 = w\<lparr>provisioningAttempts := provisioningAttempts w + 1\<rparr>
      in if canInlineWorker env
         then w1\<lparr>fetchCalls := fetchCalls w1 + 1, pdfWorkerReadyPromise := Some Pending\<rparr>
         else useFallbackWorker w1)"

definition finishProvisioning :: "environment \<Rightarrow> world \<Rightarrow> world" where
  \<comment> \<open>the event loop resumes the pending body\<close>
  "finishProvisioning env w =
     (if pdfWorkerReadyPromise w = Some Pending then inlineWorker env w else w)"

datatype call_state = Threw js_thrown | Returned | Awaiting

definition ensurePdfWorker_begin :: "environment \<Rightarrow> world \<Rightarrow> call_state \<times> world" where
  \<comment> \<open>lines 8-43 of one call, up to its \<^verbatim>\<open>await\<close>: one uninterrupted step of the event loop\<close>
  "ensurePdfWorker_begin env w =
     (if pdfjsLib w = None then (Threw (JsError ''PDF.js library not loaded''), w)
      else if truthy (currentWorker w) then (Returned, w)
      else if pdfWorkerReadyPromise w = None then (Awaiting, startProvisioning env w)
      else (Awaiting, w))"

definition ensurePdfWorker :: "environment \<Rightarrow> world \<Rightarrow> (js_thrown + unit) \<times> world" where
  \<comment> \<open>one call run to its end, with nothing else interleaved\<close>
  "ensurePdfWorker env w =
     (case ensurePdfWorker_begin env w of
        (Threw e, w1) \<Rightarrow> (Inl e, w1)
      | (Returned, w1) \<Rightarrow> (Inr (), w1)
      | (Awaiting, w1) \<Rightarrow>
          (let w2 = finishProvisioning env w1
           in case pdfWorkerReadyPromise w2 of
                Some (Rejected e) \<Rightarrow> (Inl e, w2)
              | _ \<Rightarrow> (Inr (), w2)))"

text \<open>
  Many callers: every step of the event loop is either a new call of
  \<^verbatim>\<open>ensurePdfWorker\<close>, which runs up to its \<^verbatim>\<open>await\<close>, or the resumption of the
  pending provisioning body.
\<close>

datatype event = Call | Resume

fun step :: "environment \<Rightarrow> world \<Rightarrow> event \<Rightarrow> world" where
  "step env w Call = snd (ensurePdfWorker_begin env w)"
| "step env w Resume = finishProvisioning env w"

definition run :: "environment \<Rightarrow> event list \<Rightarrow> world \<Rightarrow> world" where
  "run env evs w = foldl (step env) w evs"

section \<open>The Text Extractor\<close>

definition thrown_message :: "js_thrown \<Rightarrow> string" where
  \<comment> \<open>line 58\<close>
  "thrown_message e = (case e of JsError m \<Rightarrow> m | NonError s \<Rightarrow> s)"

definition workerFailed :: "string \<Rightarrow> bool" where
  \<comment> \<open>line 59\<close>
  "workerFailed message =
     (test_ci ''Setting up fake worker failed'' message \<or> test_ci ''Cannot load script'' message)"

definition callGetDocument ::
  "environment \<Rightarrow> nat list \<Rightarrow> world \<Rightarrow> (js_thrown + pdf_document) \<times> world" where
  "callGetDocument env data w =
     (getDocument env (getDocumentCalls w)
        (case pdfjsLib w of None \<Rightarrow> None | Some lib \<Rightarrow> disableWorker lib) data,
      w\<lparr>getDocumentCalls := getDocumentCalls w + 1\<rparr>)"

definition setDisableWorker :: "world \<Rightarrow> world" where
  \<comment> \<open>lines 65-67\<close>
  "setDisableWorker w =
     (case pdfjsLib w of
        None \<Rightarrow> w
      | Some lib \<Rightarrow>
          (case disableWorker lib of
             None \<Rightarrow> w
           | Some b \<Rightarrow> w\<lparr>pdfjsLib := Some (lib\<lparr>disableWorker := Some True\<rparr>)\<rparr>))"

definition openDocument ::
  "environment \<Rightarrow> nat list \<Rightarrow> world \<Rightarrow> (js_thrown + pdf_document) \<times> world" where
  \<comment> \<open>lines 54-69\<close>
  "openDocument env data w =
     (case callGetDocument env data w of
        (Inr pdf, w1) \<Rightarrow> (Inr pdf, w1)
      | (Inl e, w1) \<Rightarrow>
          if \<not> workerFailed (thrown_message e) then (Inl e, w1)
          else callGetDocument env data (setDisableWorker w1))"

definition pageText :: "text_item list \<Rightarrow> string" where
  \<comment> \<open>line 77\<close>
  "pageText its =
     trim (collapse_spaces
       (join '' '' (map (\<lambda>item. case str item of None \<Rightarrow> [] | Some s \<Rightarrow> s) its)))"

definition textPage :: "nat \<Rightarrow> string \<Rightarrow> page_result" where
  \<comment> \<open>lines 78-82\<close>
  "textPage pageIndex t =
     \<lparr>index = pageIndex - 1, text' = t, hasTextContent = (t \<noteq> []), error = None\<rparr>"

definition failedPage :: "nat \<Rightarrow> js_thrown \<Rightarrow> page_result" where
  \<comment> \<open>lines 85-90\<close>
  "failedPage pageIndex e =
     \<lparr>index = pageIndex - 1, text' = [], hasTextContent = False,
      error = Some (case e of JsError m \<Rightarrow> m | NonError s \<Rightarrow> ''Unknown parsing error'')\<rparr>"

definition readPage :: "pdf_document \<Rightarrow> nat \<Rightarrow> page_result" where
  \<comment> \<open>lines 74-91: the \<^verbatim>\<open>try\<close> block and its \<^verbatim>\<open>catch\<close>\<close>
  "readPage pdf pageIndex =
     (case getPage pdf pageIndex of
        Inl e \<Rightarrow> failedPage pageIndex e
      | Inr page \<Rightarrow>
          (case getTextContent page of
             Inl e \<Rightarrow> failedPage pageIndex e
           | Inr content \<Rightarrow> textPage pageIndex (pageText (items content))))"

text \<open>
  A callback is \<open>None\<close> when \<^verbatim>\<open>onProgress\<close> is not a function. A function is given
  by what it does on each call, which may depend on all values it has been called with so
  far (the last one is the current call): it returns (\<open>None\<close>) or throws.
\<close>

type_synonym callback = "int list \<Rightarrow> js_thrown option"

function extractPages ::
  "pdf_document \<Rightarrow> callback option \<Rightarrow> nat \<Rightarrow> page_result list \<Rightarrow> world
     \<Rightarrow> (js_thrown + page_result list) \<times> world" where
  \<comment> \<open>lines 73-96, from \<open>pageIndex\<close> on\<close>
  "extractPages pdf onProgress pageIndex ps w =
     (if pageIndex \<le> numPages pdf then
        (let w1 = w\<lparr>pageRequests := pageRequests w @ [pageIndex]\<rparr>;
             ps1 = ps @ [readPage pdf pageIndex]
         in case onProgress of
              None \<Rightarrow> extractPages pdf onProgress (pageIndex + 1) ps1 w1
            | Some f \<Rightarrow>
                (let w2 = w1\<lparr>progressCalls :=
                             progressCalls w1 @ [progressPercent pageIndex (numPages pdf)]\<rparr>
                 in case f (progressCalls w2) of
                      Some e \<Rightarrow> (Inl e, w2)
                    | None \<Rightarrow> extractPages pdf onProgress (pageIndex + 1) ps1 w2))
      else (Inr ps, w))"
  by pat_completeness auto
termination
  by (relation "measure (\<lambda>(pdf, onProgress, pageIndex, ps, w). Suc (numPages pdf) - pageIndex)") auto

definition titleMeta :: "pdf_document \<Rightarrow> pdf_info option" where
  \<comment> \<open>line 98 and the \<^verbatim>\<open>.info\<close> that lines 99 and 105 read from it\<close>
  "titleMeta pdf =
     (case getMetadata pdf of
        Inl e \<Rightarrow> Some \<lparr>Title = None, Author = None\<rparr>
      | Inr None \<Rightarrow> None
      | Inr (Some m) \<Rightarrow> info m)"

fun strip_pdf :: "string \<Rightarrow> string" where
  \<comment> \<open>\<^verbatim>\<open>name.replace(/\.pdf$/i, '')\<close>\<close>
  "strip_pdf [] = []"
| "strip_pdf (c # cs) =
     (if c = CHR ''.'' \<and> map upper cs = ''PDF'' then [] else c # strip_pdf cs)"

definition extractPdfText ::
  "environment \<Rightarrow> pdf_file \<Rightarrow> callback option \<Rightarrow> world
     \<Rightarrow> (js_thrown + document_result) \<times> world" where
  "extractPdfText env file onProgress w =
     (if pdfjsLib w = None then (Inl (JsError ''PDF.js library not loaded''), w)
      else case ensurePdfWorker env w of
        (Inl e, w1) \<Rightarrow> (Inl e, w1)
      | (Inr u, w1) \<Rightarrow>
          (case arrayBuffer file of
             Inl e \<Rightarrow> (Inl e, w1)
           | Inr data \<Rightarrow>
               (case openDocument env data w1 of
                  (Inl e, w2) \<Rightarrow> (Inl e, w2)
                | (Inr pdf, w2) \<Rightarrow>
                    (case extractPages pdf onProgress 1 [] w2 of
                       (Inl e, w3) \<Rightarrow> (Inl e, w3)
                     | (Inr ps, w3) \<Rightarrow>
                         (let meta = titleMeta pdf
                          in (Inr \<lparr>title = or_else (case meta of None \<Rightarrow> None | Some i \<Rightarrow> Title i)
                                             (strip_pdf (name file)),
                                    author = or_else (case meta of None \<Rightarrow> None | Some i \<Rightarrow> Author i)
                                               ''Unknown author'',
                                    totalPages = numPages pdf,
                                    pages = ps,
                                    rawSize = size' file,
                                    lastModified = lastModified' file\<rparr>,
                              w3\<lparr>cleanupCalls := cleanupCalls w3 + 1\<rparr>))))))"

section \<open>The Table Harvester\<close>

definition substring :: "string \<Rightarrow> nat \<Rightarrow> nat \<Rightarrow> string" where
  "substring s p q = take (q - p) (drop p s)"

definition is_newline :: "char \<Rightarrow> bool" where
  "is_newline c = (c = CHR 0x0A)"

definition matchAt :: "string \<Rightarrow> nat \<Rightarrow> nat option" where
  \<comment> \<open>where a match of \<^verbatim>\<open>/(?<=\.)\s+|\n+/\<close> that starts at \<open>q < length s\<close> ends: the first
     alternative is tried first, and both repetitions are greedy\<close>
  "matchAt s q =
     (if 0 < q \<and> s ! (q - 1) = CHR ''.'' \<and> is_space (s ! q)
      then Some (q + length (takeWhile is_space (drop q s)))
      else if is_newline (s ! q)
      then Some (q + length (takeWhile is_newline (drop q s)))
      else None)"

function split_from :: "string \<Rightarrow> nat \<Rightarrow> nat \<Rightarrow> string list" where
  \<comment> \<open>the loop of \<^verbatim>\<open>String.prototype.split\<close> with a regular expression without groups:
     \<open>p\<close> is where the current piece starts, \<open>q\<close> where the next match is tried\<close>
  "split_from s p q =
     (if q < length s then
        (case matchAt s q of
           None \<Rightarrow> split_from s p (q + 1)
         | Some e \<Rightarrow>
             (let e' = min e (length s)
              in if e' = p then split_from s p (q + 1)
                 else substring s p q # split_from s e' e'))
      else [substring s p (length s)])"
  by pat_completeness auto
termination
proof (relation "measure (\<lambda>(s, p, q). length s - q)", goal_cases)
  case (4 s p q e e')
  from \<open>q < length s\<close> have "drop q s = s ! q # drop (Suc q) s"
    by (simp add: Cons_nth_drop_Suc)
  with \<open>matchAt s q = Some e\<close> have "q < e"
    by (auto simp: matchAt_def split: if_splits)
  with 4 show ?case by auto
qed simp_all

definition split_lines :: "string \<Rightarrow> string list" where
  \<comment> \<open>\<^verbatim>\<open>text.split(/(?<=\.)\s+|\n+/)\<close>\<close>
  "split_lines s = (if s = [] then [[]] else split_from s 0 0)"

definition looks_tabular :: "string \<Rightarrow> bool" where
  \<comment> \<open>line 119: \<^verbatim>\<open>/\d/.test(line) && /[:,]/.test(line)\<close>\<close>
  "looks_tabular line = (list_ex is_digit line \<and> list_ex (\<lambda>c. c = CHR '':'' \<or> c = CHR '','') line)"

record 'a table_candidate =
  page :: 'a
  content :: string

definition harvestTables :: "page_result list \<Rightarrow> nat table_candidate list" where
  \<comment> \<open>lines 114-125 on a sequence of Page Results\<close>
  "harvestTables ps =
     concat (map (\<lambda>p. map (\<lambda>line. \<lparr>page = index p, content = line\<rparr>)
                        (filter looks_tabular (split_lines (text' p))))
        (filter (\<lambda>p. hasTextContent p \<and> text' p \<noteq> []) ps))"

text \<open>
  What \<^verbatim>\<open>harvestTables\<close> does with any value as argument. Objects hold data only (no
  property is a function), so a method that a value does not have by its type is missing.
\<close>

datatype js_value =
  JsUndefined | JsNull | JsBoolean bool | JsNumber int | JsString string
  | JsArray "js_value list" | JsObject "(string \<times> js_value) list"

fun js_truthy :: "js_value \<Rightarrow> bool" where
  "js_truthy JsUndefined = False"
| "js_truthy JsNull = False"
| "js_truthy (JsBoolean b) = b"
| "js_truthy (JsNumber n) = (n \<noteq> 0)"
| "js_truthy (JsString s) = (s \<noteq> [])"
| "js_truthy (JsArray xs) = True"
| "js_truthy (JsObject fs) = True"

fun get_property :: "js_value \<Rightarrow> string \<Rightarrow> js_thrown + js_value" where
  \<comment> \<open>\<^verbatim>\<open>v.name\<close> for the names \<^verbatim>\<open>hasTextContent\<close>, \<^verbatim>\<open>text\<close> and \<^verbatim>\<open>index\<close>, which no
     primitive value and no array has\<close>
  "get_property JsUndefined n = Inl (JsError ''Cannot read properties of undefined'')"
| "get_property JsNull n = Inl (JsError ''Cannot read properties of null'')"
| "get_property (JsObject fs) n = Inr (case map_of fs n of None \<Rightarrow> JsUndefined | Some v \<Rightarrow> v)"
| "get_property v n = Inr JsUndefined"

fun filter_pages :: "js_value list \<Rightarrow> js_thrown + js_value list" where
  \<comment> \<open>line 116\<close>
  "filter_pages [] = Inr []"
| "filter_pages (p # ps) =
     (case get_property p ''hasTextContent'' of
        Inl e \<Rightarrow> Inl e
      | Inr h \<Rightarrow>
          (case (if js_truthy h then get_property p ''text'' else Inr h) of
             Inl e \<Rightarrow> Inl e
           | Inr t \<Rightarrow>
               (case filter_pages ps of
                  Inl e \<Rightarrow> Inl e
                | Inr kept \<Rightarrow> Inr (if js_truthy t then p # kept else kept))))"

definition page_candidates :: "js_value \<Rightarrow> js_thrown + js_value table_candidate list" where
  \<comment> \<open>lines 118-123\<close>
  "page_candidates p =
     (case get_property p ''text'' of
        Inl e \<Rightarrow> Inl e
      | Inr (JsString s) \<Rightarrow>
          (case get_property p ''index'' of
             Inl e \<Rightarrow> Inl e
           | Inr i \<Rightarrow> Inr (map (\<lambda>line. \<lparr>page = i, content = line\<rparr>)
                            (filter looks_tabular (split_lines s))))
      | Inr JsUndefined \<Rightarrow> Inl (JsError ''Cannot read properties of undefined'')
      | Inr JsNull \<Rightarrow> Inl (JsError ''Cannot read properties of null'')
      | Inr v \<Rightarrow> Inl (JsError ''page.text.split is not a function''))"

fun flat_map_pages :: "js_value list \<Rightarrow> js_thrown + js_value table_candidate list" where
  \<comment> \<open>line 117\<close>
  "flat_map_pages [] = Inr []"
| "flat_map_pages (p # ps) =
     (case page_candidates p of
        Inl e \<Rightarrow> Inl e
      | Inr cs \<Rightarrow> (case flat_map_pages ps of Inl e \<Rightarrow> Inl e | Inr rest \<Rightarrow> Inr (cs @ rest)))"

definition harvestTables_any :: "js_value \<Rightarrow> js_thrown + js_value table_candidate list" where
  \<comment> \<open>lines 114-125 on any value\<close>
  "harvestTables_any v =
     (case v of
        JsArray ps \<Rightarrow> (case filter_pages ps of Inl e \<Rightarrow> Inl e | Inr kept \<Rightarrow> flat_map_pages kept)
      | JsUndefined \<Rightarrow> Inl (JsError ''Cannot read properties of undefined'')
      | JsNull \<Rightarrow> Inl (JsError ''Cannot read properties of null'')
      | _ \<Rightarrow> Inl (JsError ''pages.filter is not a function''))"

section \<open>Notions used to state the properties\<close>

text \<open>
  None of these is part of the program: they name what the statements below speak about
  (a callback that does not throw, the metadata's title, the lines of a text ...).
\<close>

definition never_throws :: "callback option \<Rightarrow> bool" where
  \<comment> \<open>no callback, or one that returns on every call\<close>
  "never_throws cb = (case cb of None \<Rightarrow> True | Some f \<Rightarrow> (\<forall>h. f h = None))"

definition reported :: "callback option \<Rightarrow> nat \<Rightarrow> nat \<Rightarrow> int list" where
  \<comment> \<open>the values of line 94 for the pages \<open>i\<close> to \<open>n\<close> of a document with \<open>n\<close> pages\<close>
  "reported cb i n =
     (case cb of None \<Rightarrow> [] | Some f \<Rightarrow> map (\<lambda>k. progressPercent k n) [i..<Suc n])"

definition retrievalThrows :: "pdf_document \<Rightarrow> nat \<Rightarrow> js_thrown option" where
  \<comment> \<open>what the text retrieval of page \<open>k\<close> throws, if it throws\<close>
  "retrievalThrows pdf k =
     (case getPage pdf k of
        Inl e \<Rightarrow> Some e
      | Inr pg \<Rightarrow> (case getTextContent pg of Inl e \<Rightarrow> Some e | Inr c \<Rightarrow> None))"

definition metaTitle :: "pdf_document \<Rightarrow> string option" where
  \<comment> \<open>\<^verbatim>\<open>titleMeta.info?.Title\<close>\<close>
  "metaTitle pdf = (case titleMeta pdf of None \<Rightarrow> None | Some i \<Rightarrow> Title i)"

definition metaAuthor :: "pdf_document \<Rightarrow> string option" where
  \<comment> \<open>\<^verbatim>\<open>titleMeta.info?.Author\<close>\<close>
  "metaAuthor pdf = (case titleMeta pdf of None \<Rightarrow> None | Some i \<Rightarrow> Author i)"

definition libDisableWorker :: "world \<Rightarrow> bool option" where
  \<comment> \<open>the library's flag \<^verbatim>\<open>disableWorker\<close>, when it has one of type boolean\<close>
  "libDisableWorker w = (case pdfjsLib w of None \<Rightarrow> None | Some lib \<Rightarrow> disableWorker lib)"

definition disabled :: "bool option \<Rightarrow> bool option" where
  \<comment> \<open>the flag after lines 65-67\<close>
  "disabled flag = (case flag of None \<Rightarrow> None | Some b \<Rightarrow> Some True)"

definition extraction_trace :: "world \<Rightarrow> nat \<times> nat list \<times> int list \<times> nat" where
  \<comment> \<open>what only the extraction changes\<close>
  "extraction_trace w = (getDocumentCalls w, pageRequests w, progressCalls w, cleanupCalls w)"



definition inliningFails :: "environment \<Rightarrow> bool" where
  \<comment> \<open>a capability is missing, \<^verbatim>\<open>fetch\<close> rejects, the status is not a success, or a later
     step of the \<^verbatim>\<open>try\<close> block throws\<close>
  "inliningFails env =
     (\<not> canInlineWorker env \<or>
      (case fetch env of
         Inl e \<Rightarrow> True
       | Inr response \<Rightarrow>
           \<not> ok response \<or>
           (case responseText response of
              Inl e \<Rightarrow> True
            | Inr script \<Rightarrow> (case createObjectURL env script of Inl e \<Rightarrow> True | Inr u \<Rightarrow> False))))"

definition fresh :: "world \<Rightarrow> bool" where
  \<comment> \<open>the state when the module has just been loaded\<close>
  "fresh w = (pdfWorkerReadyPromise w = None \<and> provisioningAttempts w = 0 \<and> fetchCalls w = 0)"

definition provisioned_once :: "world \<Rightarrow> bool" where
  \<comment> \<open>the invariant of the provisioner: the promise exists exactly when the body was started,
     which happened once\<close>
  "provisioned_once w =
     (if pdfWorkerReadyPromise w = None then provisioningAttempts w = 0 \<and> fetchCalls w = 0
      else provisioningAttempts w = 1 \<and> fetchCalls w \<le> 1)"

definition prepend_first :: "string \<Rightarrow> string list \<Rightarrow> string list" where
  \<comment> \<open>put characters in front of the first line\<close>
  "prepend_first x ls = (case ls of [] \<Rightarrow> [x] | l # ls' \<Rightarrow> (x @ l) # ls')"

function sentence_lines :: "bool \<Rightarrow> string \<Rightarrow> string list" where
  \<comment> \<open>the lines of a text, read from left to right: a line ends directly after a period
     that whitespace follows (the whole run of whitespace is dropped), and at a run of
     newlines (dropped too); the flag says that the character before was a period\<close>
  "sentence_lines after_period [] = [[]]"
| "sentence_lines after_period (c # cs) =
     (if after_period \<and> is_space c then [] # sentence_lines False (dropWhile is_space cs)
      else if is_newline c then [] # sentence_lines False (dropWhile is_newline cs)
      else prepend_first [c] (sentence_lines (c = CHR ''.'') cs))"
  by pat_completeness auto
termination
  by (relation "measure (\<lambda>(after_period, s). length s)")
    (auto simp: less_Suc_eq_le length_dropWhile_le)

definition page_value :: "page_result \<Rightarrow> js_value" where
  \<comment> \<open>a Page Result as a value\<close>
  "page_value p =
     JsObject ([(''index'', JsNumber (int (index p))), (''text'', JsString (text' p)),
                (''hasTextContent'', JsBoolean (hasTextContent p))] @
               (case error p of None \<Rightarrow> [] | Some m \<Rightarrow> [(''error'', JsString m)]))"

definition as_value_candidate :: "nat table_candidate \<Rightarrow> js_value table_candidate" where
  \<comment> \<open>a candidate whose page is given as a value\<close>
  "as_value_candidate c = \<lparr>page = JsNumber (int (page c)), content = content c\<rparr>"

definition wanted :: "js_value \<Rightarrow> bool" where
  \<comment> \<open>the page passes the filter of line 116\<close>
  "wanted p =
     (case get_property p ''hasTextContent'' of
        Inl e \<Rightarrow> False
      | Inr h \<Rightarrow> js_truthy h \<and> (case get_property p ''text'' of Inl e \<Rightarrow> False | Inr t \<Rightarrow> js_truthy t))"

definition has_string_text :: "js_value \<Rightarrow> bool" where
  \<comment> \<open>the property \<^verbatim>\<open>text\<close> is a string\<close>
  "has_string_text p = (case get_property p ''text'' of Inr (JsString s) \<Rightarrow> True | _ \<Rightarrow> False)"

definition harvestable :: "js_value \<Rightarrow> bool" where
  \<comment> \<open>the value is neither \<^verbatim>\<open>undefined\<close> nor \<^verbatim>\<open>null\<close>, and if it passes the filter
     its text is a string\<close>
  "harvestable p = (p \<noteq> JsUndefined \<and> p \<noteq> JsNull \<and> (wanted p \<longrightarrow> has_string_text p))"

section \<open>Example inputs\<close>

definition example_pdf :: pdf_document where
  "example_pdf =
     \<lparr>numPages = 2,
      getPage = (\<lambda>k. if k = 1
                      then Inr \<lparr>getTextContent =
                                 Inr \<lparr>items = [\<lparr>str = Some ''Revenue:''\<rparr>, \<lparr>str = None\<rparr>,
                                                \<lparr>str = Some '' 100 ''\<rparr>]\<rparr>\<rparr>
                      else Inl (JsError ''Invalid page request'')),
      getMetadata = Inl (JsError ''no metadata'')\<rparr>"

definition example_env :: environment where
  "example_env =
     \<lparr>hasFetch = False, hasBlob = True, hasURL = True, hasCreateObjectURL = True,
      fetch = Inl (JsError ''Failed to fetch''),
      createObjectURL = (\<lambda>script. Inr ''blob:1''),
      getDocument = (\<lambda>n dw data. Inr example_pdf)\<rparr>"

definition example_world :: world where
  "example_world =
     \<lparr>pdfjsLib = Some \<lparr>GlobalWorkerOptions = Some \<lparr>workerSrc = None\<rparr>, disableWorker = None\<rparr>,
      pdfWorkerBlobUrl = None, pdfWorkerReadyPromise = None, provisioningAttempts = 0,
      fetchCalls = 0, getDocumentCalls = 0, pageRequests = [], progressCalls = [],
      cleanupCalls = 0\<rparr>"

definition example_file :: pdf_file where
  "example_file =
     \<lparr>name = ''Report.PDF'', size' = 3, lastModified' = 0, arrayBuffer = Inr [37, 80, 68]\<rparr>"

definition example_pages :: "page_result list" where
  "example_pages =
     [\<lparr>index = 0, text' = ''Revenue: 100'', hasTextContent = True, error = None\<rparr>,
      \<lparr>index = 1, text' = [], hasTextContent = False, error = Some ''Invalid page request''\<rparr>]"

definition example_result :: document_result where
  "example_result =
     \<lparr>title = ''Report'', author = ''Unknown author'', totalPages = 2, pages = example_pages,
      rawSize = 3, lastModified = 0\<rparr>"

definition quiet :: callback where
  \<comment> \<open>a callback that returns\<close>
  "quiet h = None"

definition three_page_env :: environment where
  "three_page_env = example_env\<lparr>getDocument := (\<lambda>n dw data. Inr (example_pdf\<lparr>numPages := 3\<rparr>))\<rparr>"

definition throws_on_second_call :: callback where
  "throws_on_second_call h = (if length h = 2 then Some (JsError ''stop'') else None)"

definition silent_failure_env :: environment where
  "silent_failure_env =
     example_env\<lparr>getDocument :=
       (\<lambda>n dw data. Inr \<lparr>numPages = 1, getPage = (\<lambda>k. Inl (JsError [])), getMetadata = Inr None\<rparr>)\<rparr>"


definition thousand_page_env :: environment where
  "thousand_page_env =
     example_env\<lparr>getDocument := (\<lambda>n dw data. Inr (example_pdf\<lparr>numPages := 1000\<rparr>))\<rparr>"

definition flaky_env :: "string \<Rightarrow> environment" where
  "flaky_env message =
     example_env\<lparr>getDocument :=
       (\<lambda>n dw data. if n = 0 then Inl (JsError message) else Inr example_pdf)\<rparr>"

definition legacy_world :: world where
  "legacy_world =
     example_world\<lparr>pdfjsLib :=
       Some \<lparr>GlobalWorkerOptions = Some \<lparr>workerSrc = Some ''pdf.worker.js''\<rparr>,
             disableWorker = Some False\<rparr>\<rparr>"

definition offline_env :: environment where
  "offline_env = example_env\<lparr>hasFetch := True\<rparr>"

definition optionless_world :: world where
  \<comment> \<open>a loaded library that does not expose \<^verbatim>\<open>GlobalWorkerOptions\<close>, the case line 11
     provides for\<close>
  "optionless_world =
     example_world\<lparr>pdfjsLib := Some \<lparr>GlobalWorkerOptions = None, disableWorker = None\<rparr>\<rparr>"

definition example_pages_in :: "page_result list" where
  "example_pages_in =
     [\<lparr>index = 0, text' = ''Revenue: 100, up 5%. Notes here.'', hasTextContent = True,
       error = None\<rparr>]"

definition more_pages_in :: "page_result list" where
  "more_pages_in =
     [\<lparr>index = 0, text' = ''Total: 7'', hasTextContent = False, error = None\<rparr>,
      \<lparr>index = 1, text' = [CHR ''a'', CHR '':'', CHR ''1'', CHR 0x0A, CHR 0x0A, CHR ''b'', CHR ''.'',
                        CHR 0x09, CHR '' '', CHR ''2'', CHR '','', CHR ''c''],
       hasTextContent = True, error = None\<rparr>]"

definition untyped_pages :: "js_value list" where
  "untyped_pages =
     [JsNumber 3, JsObject [(''hasTextContent'', JsBoolean False), (''text'', JsNumber 5)]]"

section \<open>The page loop\<close>

declare extractPages.simps [simp del]

lemma readPage_index: "index (readPage pdf k) = k - 1"
  by (simp add: readPage_def failedPage_def textPage_def split: sum.splits)

lemma readPage_hasTextContent: "hasTextContent (readPage pdf k) = (text' (readPage pdf k) \<noteq> [])"
  by (simp add: readPage_def failedPage_def textPage_def split: sum.splits)

lemma extractPages_done:
  "\<not> pageIndex \<le> numPages pdf \<Longrightarrow> extractPages pdf cb pageIndex ps w = (Inr ps, w)"
  by (simp add: extractPages.simps)

lemma extractPages_None:
  "pageIndex \<le> numPages pdf \<Longrightarrow>
   extractPages pdf None pageIndex ps w =
     extractPages pdf None (pageIndex + 1) (ps @ [readPage pdf pageIndex])
       (w\<lparr>pageRequests := pageRequests w @ [pageIndex]\<rparr>)"
  by (subst extractPages.simps) (simp add: Let_def)

lemma extractPages_Some:
  "pageIndex \<le> numPages pdf \<Longrightarrow>
   extractPages pdf (Some f) pageIndex ps w =
     (let w2 = w\<lparr>pageRequests := pageRequests w @ [pageIndex],
                 progressCalls := progressCalls w @ [progressPercent pageIndex (numPages pdf)]\<rparr>
      in case f (progressCalls w2) of
           Some e \<Rightarrow> (Inl e, w2)
         | None \<Rightarrow> extractPages pdf (Some f) (pageIndex + 1) (ps @ [readPage pdf pageIndex]) w2)"
  by (subst extractPages.simps) (simp add: Let_def split: option.splits)

lemma upt_first: "i \<le> n \<Longrightarrow> [i..<Suc n] = i # [i + 1..<Suc n]"
  by (simp add: upt_conv_Cons)

lemma extractPages_Inr:
  "extractPages pdf cb i ps w = (Inr ps', w') \<Longrightarrow>
   ps' = ps @ map (readPage pdf) [i..<Suc (numPages pdf)]"
proof (induction pdf cb i ps w rule: extractPages.induct)
  case (1 pdf onProgress pageIndex ps w)
  show ?case
  proof (cases "pageIndex \<le> numPages pdf")
    case False
    with "1.prems" show ?thesis by (simp add: extractPages_done)
  next
    case True
    note upt = upt_first [OF True]
    show ?thesis
    proof (cases onProgress)
      case None
      with True "1.prems" have "extractPages pdf onProgress (pageIndex + 1) (ps @ [readPage pdf pageIndex])
       (w\<lparr>pageRequests := pageRequests w @ [pageIndex]\<rparr>) = (Inr ps', w')"
        by (simp add: extractPages_None)
      from "1.IH"(1) [OF True refl refl None this] upt show ?thesis by simp
    next
      case (Some f)
      define w2 where "w2 = w\<lparr>pageRequests := pageRequests w @ [pageIndex],
                 progressCalls := progressCalls w @ [progressPercent pageIndex (numPages pdf)]\<rparr>"
      from Some True "1.prems" have "f (progressCalls w2) = None"
        and "extractPages pdf onProgress (pageIndex + 1) (ps @ [readPage pdf pageIndex]) w2 = (Inr ps', w')"
        by (auto simp: extractPages_Some w2_def Let_def split: option.splits)
      from "1.IH"(2) [OF True refl refl Some _ _ this(2)] this(1) upt show ?thesis
        by (simp add: w2_def)
    qed
  qed
qed

lemma extractPages_returns:
  "never_throws cb \<Longrightarrow>
   extractPages pdf cb i ps w =
     (Inr (ps @ map (readPage pdf) [i..<Suc (numPages pdf)]),
      w\<lparr>pageRequests := pageRequests w @ [i..<Suc (numPages pdf)],
        progressCalls := progressCalls w @ reported cb i (numPages pdf)\<rparr>)"
proof (induction pdf cb i ps w rule: extractPages.induct)
  case (1 pdf onProgress pageIndex ps w)
  show ?case
  proof (cases "pageIndex \<le> numPages pdf")
    case False
    then show ?thesis
      by (simp add: extractPages_done reported_def split: option.splits)
  next
    case True
    note upt = upt_first [OF True]
    show ?thesis
    proof (cases onProgress)
      case None
      from "1.IH"(1) [OF True refl refl None] "1.prems" None True upt show ?thesis
        by (simp add: extractPages_None reported_def)
    next
      case (Some f)
      with "1.prems" have nt: "\<And>h. f h = None"
        by (simp add: never_throws_def)
      from "1.IH"(2) [OF True refl refl Some refl nt] "1.prems" Some True upt nt show ?thesis
        by (simp add: extractPages_Some reported_def)
    qed
  qed
qed

lemma extractPages_throws:
  assumes "i \<le> k" and "k \<le> numPages pdf"
    and "\<forall>j. i \<le> j \<and> j < k \<longrightarrow>
           f (progressCalls w @ map (\<lambda>m. progressPercent m (numPages pdf)) [i..<Suc j]) = None"
    and "f (progressCalls w @ map (\<lambda>m. progressPercent m (numPages pdf)) [i..<Suc k]) = Some e"
  shows "extractPages pdf (Some f) i ps w =
           (Inl e, w\<lparr>pageRequests := pageRequests w @ [i..<Suc k],
                     progressCalls :=
                       progressCalls w @ map (\<lambda>m. progressPercent m (numPages pdf)) [i..<Suc k]\<rparr>)"
  using assms
proof (induction "k - i" arbitrary: i ps w)
  case 0
  then have "i = k" by simp
  with "0.prems" show ?case
    by (simp add: extractPages_Some)
next
  case (Suc d)
  then have lt: "i < k" and le: "i \<le> numPages pdf" by simp_all
  define w2 where "w2 = w\<lparr>pageRequests := pageRequests w @ [i],
                 progressCalls := progressCalls w @ [progressPercent i (numPages pdf)]\<rparr>"
  have first: "f (progressCalls w2) = None"
    using Suc.prems(3) [rule_format, of i] lt by (simp add: w2_def)
  have shift: "progressCalls w2 @ map (\<lambda>m. progressPercent m (numPages pdf)) [Suc i..<Suc j] =
      progressCalls w @ map (\<lambda>m. progressPercent m (numPages pdf)) [i..<Suc j]" if "i \<le> j" for j
    using that by (simp add: w2_def upt_conv_Cons [of i "Suc j"] del: upt_Suc)
  have "extractPages pdf (Some f) (i + 1) (ps @ [readPage pdf i]) w2 =
           (Inl e, w2\<lparr>pageRequests := pageRequests w2 @ [i + 1..<Suc k],
                     progressCalls :=
                       progressCalls w2 @ map (\<lambda>m. progressPercent m (numPages pdf)) [i + 1..<Suc k]\<rparr>)"
  proof (rule Suc.hyps(1))
    show "d = k - (i + 1)" using Suc.hyps(2) by simp
    show "i + 1 \<le> k" using lt by simp
    show "k \<le> numPages pdf" by (rule Suc.prems(2))
    show "\<forall>j. i + 1 \<le> j \<and> j < k \<longrightarrow>
        f (progressCalls w2 @ map (\<lambda>m. progressPercent m (numPages pdf)) [i + 1..<Suc j]) = None"
      using Suc.prems(3) by (auto simp add: shift simp del: upt_Suc)
    show "f (progressCalls w2 @ map (\<lambda>m. progressPercent m (numPages pdf)) [i + 1..<Suc k]) = Some e"
      using Suc.prems(4) lt by (simp add: shift del: upt_Suc)
  qed
  moreover have "extractPages pdf (Some f) i ps w =
      extractPages pdf (Some f) (i + 1) (ps @ [readPage pdf i]) w2"
    using le first by (simp add: extractPages_Some w2_def)
  moreover have "[i..<Suc k] = i # [i + 1..<Suc k]"
    using lt by (simp add: upt_first del: upt_Suc)
  ultimately show ?case
    using lt by (simp add: w2_def del: upt_Suc)
qed

lemma example_readPage1: "readPage example_pdf (Suc 0) = \<lparr>index = 0, text' = ''Revenue: 100'', hasTextContent = True, error = None\<rparr>"
  by (simp add: readPage_def example_pdf_def example_pages_def textPage_def pageText_def trim_def is_space_def)

lemma example_readPage2: "readPage example_pdf 2 = \<lparr>index = 1, text' = [], hasTextContent = False, error = Some ''Invalid page request''\<rparr>"
  by (simp add: readPage_def example_pdf_def example_pages_def failedPage_def)

lemma example_ensure:
  "\<not> canInlineWorker env \<Longrightarrow>
   ensurePdfWorker env example_world =
     (Inr (), example_world\<lparr>pdfjsLib := Some \<lparr>GlobalWorkerOptions = Some \<lparr>workerSrc = Some PDF_WORKER_SOURCE\<rparr>, disableWorker = None\<rparr>,
        pdfWorkerReadyPromise := Some Fulfilled, provisioningAttempts := 1\<rparr>)"
  by (simp add: ensurePdfWorker_def ensurePdfWorker_begin_def example_world_def
      currentWorker_def truthy_def startProvisioning_def useFallbackWorker_def
      setWorkerSrc_def or_else_def settle_def finishProvisioning_def)

lemma extractPdfText_returns:
  assumes "pdfjsLib w \<noteq> None"
    and "ensurePdfWorker env w = (Inr u, w1)"
    and "arrayBuffer file = Inr data"
    and "openDocument env data w1 = (Inr pdf, w2)"
    and "never_throws cb"
  shows "extractPdfText env file cb w =
     (Inr \<lparr>title = or_else (metaTitle pdf) (strip_pdf (name file)),
           author = or_else (metaAuthor pdf) ''Unknown author'',
           totalPages = numPages pdf,
           pages = map (readPage pdf) [1..<Suc (numPages pdf)],
           rawSize = size' file,
           lastModified = lastModified' file\<rparr>,
      w2\<lparr>pageRequests := pageRequests w2 @ [1..<Suc (numPages pdf)],
         progressCalls := progressCalls w2 @ reported cb 1 (numPages pdf),
         cleanupCalls := cleanupCalls w2 + 1\<rparr>)"
  using assms(1-4) extractPages_returns [OF assms(5), of pdf 1 "[]" w2]
  by (simp add: extractPdfText_def metaTitle_def metaAuthor_def Let_def del: upt_Suc)

lemma extractPdfText_Inr:
  assumes "extractPdfText env file cb w = (Inr r, w')"
  obtains u w1 data pdf w2 w3 where
    "pdfjsLib w \<noteq> None" and "ensurePdfWorker env w = (Inr u, w1)" and "arrayBuffer file = Inr data"
    and "openDocument env data w1 = (Inr pdf, w2)"
    and "extractPages pdf cb 1 [] w2 = (Inr (pages r), w3)"
    and "r = \<lparr>title = or_else (metaTitle pdf) (strip_pdf (name file)),
           author = or_else (metaAuthor pdf) ''Unknown author'',
           totalPages = numPages pdf,
           pages = map (readPage pdf) [1..<Suc (numPages pdf)],
           rawSize = size' file,
           lastModified = lastModified' file\<rparr>"
    and "w' = w3\<lparr>cleanupCalls := cleanupCalls w3 + 1\<rparr>"
proof -
  from assms have lib: "pdfjsLib w \<noteq> None"
    by (auto simp: extractPdfText_def split: if_splits)
  obtain r1 w1 where e1: "ensurePdfWorker env w = (r1, w1)"
    by (cases "ensurePdfWorker env w")
  with assms lib obtain u where r1: "r1 = Inr u"
    by (cases r1) (auto simp: extractPdfText_def)
  from assms lib e1 r1 obtain data where ab: "arrayBuffer file = Inr data"
    by (cases "arrayBuffer file") (auto simp: extractPdfText_def)
  obtain r2 w2 where e2: "openDocument env data w1 = (r2, w2)"
    by (cases "openDocument env data w1")
  with assms lib e1 r1 ab obtain pdf where r2: "r2 = Inr pdf"
    by (cases r2) (auto simp: extractPdfText_def)
  obtain r3 w3 where e3: "extractPages pdf cb 1 [] w2 = (r3, w3)"
    by (cases "extractPages pdf cb 1 [] w2")
  with assms lib e1 r1 ab e2 r2 obtain ps where r3: "r3 = Inr ps"
    by (cases r3) (auto simp: extractPdfText_def)
  from extractPages_Inr [OF e3 [unfolded r3]] have ps: "ps = map (readPage pdf) [1..<Suc (numPages pdf)]"
    by simp
  from assms lib e1 r1 ab e2 r2 e3 r3 have
    "r = \<lparr>title = or_else (metaTitle pdf) (strip_pdf (name file)),
           author = or_else (metaAuthor pdf) ''Unknown author'',
           totalPages = numPages pdf,
           pages = ps,
           rawSize = size' file,
           lastModified = lastModified' file\<rparr>"
    and w': "w' = w3\<lparr>cleanupCalls := cleanupCalls w3 + 1\<rparr>"
    by (auto simp: extractPdfText_def metaTitle_def metaAuthor_def Let_def)
  with ps have r: "r = \<lparr>title = or_else (metaTitle pdf) (strip_pdf (name file)),
           author = or_else (metaAuthor pdf) ''Unknown author'',
           totalPages = numPages pdf,
           pages = map (readPage pdf) [1..<Suc (numPages pdf)],
           rawSize = size' file,
           lastModified = lastModified' file\<rparr>" by simp
  have "extractPages pdf cb 1 [] w2 = (Inr (pages r), w3)"
    using e3 r3 ps r by simp
  from that [OF lib e1 [unfolded r1] ab e2 [unfolded r2] this r w'] show thesis .
qed

lemma example_extract:
  "extractPdfText example_env example_file None example_world =
     (Inr \<lparr>title = ''Report'', author = ''Unknown author'', totalPages = 2, pages = example_pages,
           rawSize = 3, lastModified = 0\<rparr>,
      example_world\<lparr>pdfjsLib := Some \<lparr>GlobalWorkerOptions = Some \<lparr>workerSrc = Some PDF_WORKER_SOURCE\<rparr>, disableWorker = None\<rparr>,
        pdfWorkerReadyPromise := Some Fulfilled, provisioningAttempts := 1,
        getDocumentCalls := 1, pageRequests := [1, 2], cleanupCalls := 1\<rparr>)"
proof -
  have n: "numPages example_pdf = 2"
    by (simp add: example_pdf_def)
  have upt: "[1..<Suc 2] = [1, 2::nat]"
    by code_simp
  have ps: "map (readPage example_pdf) [1, 2] = example_pages"
    by (simp add: example_readPage1 example_readPage2 example_pages_def)
  have op: "openDocument example_env data w = (Inr example_pdf, w\<lparr>getDocumentCalls := getDocumentCalls w + 1\<rparr>)" for data w
    by (simp add: openDocument_def callGetDocument_def example_env_def)
  have meta: "metaTitle example_pdf = None" "metaAuthor example_pdf = None"
    by (simp_all add: metaTitle_def metaAuthor_def titleMeta_def example_pdf_def)
  have strip: "strip_pdf (name example_file) = ''Report''"
    by (simp add: upper_def example_file_def)
  have lib: "pdfjsLib example_world \<noteq> None"
    by (simp add: example_world_def)
  have ab: "arrayBuffer example_file = Inr [37, 80, 68]"
    by (simp add: example_file_def)
  have nt: "never_throws None"
    by (simp add: never_throws_def)
  have ni: "\<not> canInlineWorker example_env"
    by (simp add: canInlineWorker_def example_env_def)
  show ?thesis
    unfolding extractPdfText_returns [OF lib example_ensure [OF ni] ab op nt] n upt ps meta strip
    by (simp add: example_world_def example_file_def or_else_def reported_def)
qed

lemma useFallbackWorker_trace: "extraction_trace (useFallbackWorker w) = extraction_trace w"
  by (simp add: useFallbackWorker_def settle_def setWorkerSrc_def extraction_trace_def
      split: option.splits)

lemma inlineWorker_trace: "extraction_trace (inlineWorker env w) = extraction_trace w"
proof -
  have "extraction_trace (useFallbackWorker (w\<lparr>pdfWorkerBlobUrl := b\<rparr>)) = extraction_trace w" for b
    by (simp add: useFallbackWorker_trace) (simp add: extraction_trace_def)
  then show ?thesis
    by (simp add: inlineWorker_def useFallbackWorker_trace Let_def split: sum.splits)
      (auto simp: settle_def setWorkerSrc_def extraction_trace_def split: option.splits)
qed

lemma ensurePdfWorker_trace:
  "extraction_trace (snd (ensurePdfWorker env w)) = extraction_trace w"
proof -
  have start: "extraction_trace (startProvisioning env w) = extraction_trace w"
    using useFallbackWorker_trace [of "w\<lparr>provisioningAttempts := provisioningAttempts w + 1\<rparr>"]
    by (simp add: startProvisioning_def Let_def) (simp add: extraction_trace_def)
  have fin: "extraction_trace (finishProvisioning env v) = extraction_trace v" for v
    by (simp add: finishProvisioning_def inlineWorker_trace)
  show ?thesis
    by (simp add: ensurePdfWorker_def ensurePdfWorker_begin_def Let_def fin start
        split: option.splits promise.splits)
qed

lemma openDocument_trace:
  "openDocument env data w = (r, w') \<Longrightarrow>
   pageRequests w' = pageRequests w \<and> progressCalls w' = progressCalls w \<and>
   cleanupCalls w' = cleanupCalls w"
  by (auto simp: openDocument_def callGetDocument_def setDisableWorker_def
      split: sum.splits if_splits option.splits)

section \<open>The extraction result\<close>

text \<open>
  Claim C1. Whenever \<^verbatim>\<open>extractPdfText\<close> returns a result, \<open>pages\<close> has exactly
  \<open>totalPages\<close> entries, \<open>totalPages\<close> is the page count of the document that was
  opened, the entry at position \<open>i\<close> has \<open>index = i\<close>, and \<open>hasTextContent\<close> holds
  exactly when \<open>text\<close> is not empty.
\<close>

theorem pages_follow_page_count:
  assumes "extractPdfText env file onProgress w = (Inr r, w')"
  shows "length (pages r) = totalPages r \<and>
         (\<forall>i<length (pages r).
            index (pages r ! i) = i \<and>
            (hasTextContent (pages r ! i) \<longleftrightarrow> text' (pages r ! i) \<noteq> [])) \<and>
         (\<exists>data pdf w2. arrayBuffer file = Inr data \<and>
            openDocument env data (snd (ensurePdfWorker env w)) = (Inr pdf, w2) \<and>
            totalPages r = numPages pdf)"
proof -
  from assms obtain u w1 data pdf w2 where
    ens: "ensurePdfWorker env w = (Inr u, w1)" and ab: "arrayBuffer file = Inr data"
    and op: "openDocument env data w1 = (Inr pdf, w2)"
    and r: "r = \<lparr>title = or_else (metaTitle pdf) (strip_pdf (name file)),
           author = or_else (metaAuthor pdf) ''Unknown author'',
           totalPages = numPages pdf,
           pages = map (readPage pdf) [1..<Suc (numPages pdf)],
           rawSize = size' file,
           lastModified = lastModified' file\<rparr>"
    by (rule extractPdfText_Inr)
  have len: "length (pages r) = totalPages r"
    by (simp add: r del: upt_Suc)
  have each: "index (pages r ! i) = i \<and>
      (hasTextContent (pages r ! i) \<longleftrightarrow> text' (pages r ! i) \<noteq> [])" if "i < length (pages r)" for i
  proof -
    from that have "i < numPages pdf" by (simp add: r del: upt_Suc)
    then have "pages r ! i = readPage pdf (Suc i)"
      unfolding r by (simp add: nth_append del: upt_Suc)
    then show ?thesis
      by (simp add: readPage_index readPage_hasTextContent)
  qed
  from ens ab op have "\<exists>data pdf w2. arrayBuffer file = Inr data \<and>
            openDocument env data (snd (ensurePdfWorker env w)) = (Inr pdf, w2) \<and>
            totalPages r = numPages pdf"
    by (simp add: r)
  with len each show ?thesis by blast
qed

theorem pages_follow_page_count_witness:
  "extractPdfText example_env example_file None example_world =
     (Inr example_result,
      example_world\<lparr>pdfjsLib := Some \<lparr>GlobalWorkerOptions = Some \<lparr>workerSrc = Some PDF_WORKER_SOURCE\<rparr>, disableWorker = None\<rparr>,
        pdfWorkerReadyPromise := Some Fulfilled, provisioningAttempts := 1,
        getDocumentCalls := 1, pageRequests := [1, 2], cleanupCalls := 1\<rparr>) \<and>
   length (pages example_result) = totalPages example_result \<and>
   totalPages example_result = 2 \<and>
   index (pages example_result ! 0) = 0 \<and> index (pages example_result ! 1) = 1 \<and>
   hasTextContent (pages example_result ! 0) \<and> text' (pages example_result ! 0) \<noteq> [] \<and>
   \<not> hasTextContent (pages example_result ! 1) \<and> text' (pages example_result ! 1) = []"
  using pages_follow_page_count [OF example_extract [folded example_result_def]]
  by (simp add: example_extract [folded example_result_def]) (simp add: example_result_def example_pages_def)

section \<open>Failures inside the page loop\<close>

text \<open>
  Claim C10. When the callback throws on its \<open>k\<close>-th call of an extraction (and on no
  earlier one), \<^verbatim>\<open>extractPdfText\<close> ends with that exception instead of a result: the
  pages after \<open>k\<close> are never requested and \<^verbatim>\<open>cleanup\<close> is not called.
\<close>

theorem callback_exception_propagates:
  assumes "pdfjsLib w \<noteq> None"
    and "ensurePdfWorker env w = (Inr u, w1)"
    and "arrayBuffer file = Inr data"
    and "openDocument env data w1 = (Inr pdf, w2)"
    and "1 \<le> k" and "k \<le> numPages pdf"
    and "\<forall>j. 1 \<le> j \<and> j < k \<longrightarrow>
           f (progressCalls w @ map (\<lambda>m. progressPercent m (numPages pdf)) [1..<Suc j]) = None"
    and "f (progressCalls w @ map (\<lambda>m. progressPercent m (numPages pdf)) [1..<Suc k]) = Some e"
  shows "fst (extractPdfText env file (Some f) w) = Inl e \<and>
         pageRequests (snd (extractPdfText env file (Some f) w)) = pageRequests w @ [1..<Suc k] \<and>
         length (progressCalls (snd (extractPdfText env file (Some f) w))) =
           length (progressCalls w) + k \<and>
         cleanupCalls (snd (extractPdfText env file (Some f) w)) = cleanupCalls w"
proof -
  from ensurePdfWorker_trace [of env w] assms(2)
  have t1: "pageRequests w1 = pageRequests w" "progressCalls w1 = progressCalls w"
    "cleanupCalls w1 = cleanupCalls w"
    by (simp_all add: extraction_trace_def)
  from openDocument_trace [OF assms(4)] t1
  have t2: "pageRequests w2 = pageRequests w" "progressCalls w2 = progressCalls w"
    "cleanupCalls w2 = cleanupCalls w"
    by simp_all
  from assms(1-4) extractPages_throws [OF assms(5,6), of f w2 e "[]"] assms(7,8) t2 assms(5)
  show ?thesis
    by (simp add: extractPdfText_def del: upt_Suc)
qed

theorem callback_exception_propagates_witness:
  "numPages (example_pdf\<lparr>numPages := 3\<rparr>) = 3 \<and>
   fst (extractPdfText three_page_env example_file (Some throws_on_second_call) example_world) =
     Inl (JsError ''stop'') \<and>
   pageRequests (snd (extractPdfText three_page_env example_file (Some throws_on_second_call)
     example_world)) = [1, 2] \<and>
   length (progressCalls (snd (extractPdfText three_page_env example_file
     (Some throws_on_second_call) example_world))) = 2 \<and>
   cleanupCalls (snd (extractPdfText three_page_env example_file (Some throws_on_second_call)
     example_world)) = 0"
proof -
  have ni: "\<not> canInlineWorker three_page_env"
    by (simp add: canInlineWorker_def three_page_env_def example_env_def)
  have lib: "pdfjsLib example_world \<noteq> None"
    by (simp add: example_world_def)
  have ab: "arrayBuffer example_file = Inr [37, 80, 68]"
    by (simp add: example_file_def)
  have op: "openDocument three_page_env data w =
      (Inr (example_pdf\<lparr>numPages := 3\<rparr>), w\<lparr>getDocumentCalls := getDocumentCalls w + 1\<rparr>)" for data w
    by (simp add: openDocument_def callGetDocument_def three_page_env_def)
  have upt: "[Suc 0..<3] = [Suc 0, 2]"
    by code_simp
  have first: "\<forall>j. 1 \<le> j \<and> j < 2 \<longrightarrow> throws_on_second_call (progressCalls example_world @
      map (\<lambda>m. progressPercent m (numPages (example_pdf\<lparr>numPages := 3\<rparr>))) [1..<Suc j]) = None"
    by (simp add: throws_on_second_call_def example_world_def)
  have second: "throws_on_second_call (progressCalls example_world @
      map (\<lambda>m. progressPercent m (numPages (example_pdf\<lparr>numPages := 3\<rparr>))) [1..<Suc 2]) =
      Some (JsError ''stop'')"
    by (simp add: throws_on_second_call_def example_world_def)
  have "(1::nat) \<le> 2" and "2 \<le> numPages (example_pdf\<lparr>numPages := 3\<rparr>)"
    by simp_all
  from callback_exception_propagates [OF lib example_ensure [OF ni] ab op this first second]
  show ?thesis
    by (simp add: upt example_world_def)
qed

text \<open>
  Claim C2, as amended. A page whose text retrieval throws is recorded with an empty text,
  \<open>hasTextContent = False\<close> and, as \<open>error\<close>, the message of the thrown \<^verbatim>\<open>Error\<close>
  (\<^verbatim>\<open>Unknown parsing error\<close> when the thrown value is no \<^verbatim>\<open>Error\<close>). The failure does
  not end the extraction: when there is no callback, or one that does not throw, every page
  from 1 to the page count is requested and a result with all pages is returned.
\<close>

theorem failed_page_is_recorded:
  assumes "pdfjsLib w \<noteq> None"
    and "ensurePdfWorker env w = (Inr u, w1)"
    and "arrayBuffer file = Inr data"
    and "openDocument env data w1 = (Inr pdf, w2)"
    and "never_throws onProgress"
  shows "\<exists>r w'. extractPdfText env file onProgress w = (Inr r, w') \<and>
           length (pages r) = numPages pdf \<and>
           pageRequests w' = pageRequests w @ [1..<Suc (numPages pdf)] \<and>
           (\<forall>k e. 1 \<le> k \<and> k \<le> numPages pdf \<and> retrievalThrows pdf k = Some e \<longrightarrow>
              pages r ! (k - 1) =
                \<lparr>index = k - 1, text' = [], hasTextContent = False,
                 error = Some (case e of JsError m \<Rightarrow> m | NonError s \<Rightarrow> ''Unknown parsing error'')\<rparr>)"
proof -
  from ensurePdfWorker_trace [of env w] assms(2) have "pageRequests w1 = pageRequests w"
    by (simp add: extraction_trace_def)
  with openDocument_trace [OF assms(4)] have req: "pageRequests w2 = pageRequests w"
    by simp
  have rec: "map (readPage pdf) [1..<Suc (numPages pdf)] ! (k - 1) =
      \<lparr>index = k - 1, text' = [], hasTextContent = False,
       error = Some (case e of JsError m \<Rightarrow> m | NonError s \<Rightarrow> ''Unknown parsing error'')\<rparr>"
    if "1 \<le> k" "k \<le> numPages pdf" "retrievalThrows pdf k = Some e" for k e
  proof -
    from that(1,2) have "map (readPage pdf) [1..<Suc (numPages pdf)] ! (k - 1) = readPage pdf k"
      by (simp del: upt_Suc)
    also from that(3) have "readPage pdf k = failedPage k e"
      by (auto simp: retrievalThrows_def readPage_def split: sum.splits)
    finally show ?thesis
      by (simp add: failedPage_def)
  qed
  show ?thesis
    unfolding extractPdfText_returns [OF assms]
    using rec req by (auto simp del: upt_Suc)
qed

theorem failed_page_is_recorded_witness:
  "retrievalThrows example_pdf 2 = Some (JsError ''Invalid page request'') \<and>
   (\<exists>r w'. extractPdfText example_env example_file None example_world = (Inr r, w') \<and>
      length (pages r) = 2 \<and> pageRequests w' = [1, 2] \<and>
      pages r ! 1 = \<lparr>index = 1, text' = [], hasTextContent = False,
                      error = Some ''Invalid page request''\<rparr>)"
proof -
  have ni: "\<not> canInlineWorker example_env"
    by (simp add: canInlineWorker_def example_env_def)
  have lib: "pdfjsLib example_world \<noteq> None"
    by (simp add: example_world_def)
  have ab: "arrayBuffer example_file = Inr [37, 80, 68]"
    by (simp add: example_file_def)
  have op: "openDocument example_env data w =
      (Inr example_pdf, w\<lparr>getDocumentCalls := getDocumentCalls w + 1\<rparr>)" for data w
    by (simp add: openDocument_def callGetDocument_def example_env_def)
  have nt: "never_throws None"
    by (simp add: never_throws_def)
  have thr: "retrievalThrows example_pdf 2 = Some (JsError ''Invalid page request'')"
    by (simp add: retrievalThrows_def example_pdf_def)
  have n: "numPages example_pdf = 2"
    by (simp add: example_pdf_def)
  have upt: "[Suc 0..<3] = [Suc 0, 2]"
    by code_simp
  from failed_page_is_recorded [OF lib example_ensure [OF ni] ab op nt]
  obtain r w' where res: "extractPdfText example_env example_file None example_world = (Inr r, w')"
    and len: "length (pages r) = numPages example_pdf"
    and req: "pageRequests w' = pageRequests example_world @ [1..<Suc (numPages example_pdf)]"
    and rec: "\<forall>k e. 1 \<le> k \<and> k \<le> numPages example_pdf \<and> retrievalThrows example_pdf k = Some e \<longrightarrow>
              pages r ! (k - 1) =
                \<lparr>index = k - 1, text' = [], hasTextContent = False,
                 error = Some (case e of JsError m \<Rightarrow> m | NonError s \<Rightarrow> ''Unknown parsing error'')\<rparr>"
    by blast
  from rec [rule_format, of 2 "JsError ''Invalid page request''"] thr n
  have "pages r ! 1 = \<lparr>index = 1, text' = [], hasTextContent = False,
                      error = Some ''Invalid page request''\<rparr>"
    by simp
  with res len req thr n upt show ?thesis
    by (simp add: example_world_def)
qed

theorem failed_page_error_may_be_empty:
  "retrievalThrows \<lparr>numPages = 1, getPage = (\<lambda>k. Inl (JsError [])), getMetadata = Inr None\<rparr> 1 =
     Some (JsError []) \<and>
   fst (extractPdfText silent_failure_env example_file None example_world) =
     Inr \<lparr>title = ''Report'', author = ''Unknown author'', totalPages = 1,
          pages = [\<lparr>index = 0, text' = [], hasTextContent = False, error = Some []\<rparr>],
          rawSize = 3, lastModified = 0\<rparr>"
proof -
  have ni: "\<not> canInlineWorker silent_failure_env"
    by (simp add: canInlineWorker_def silent_failure_env_def example_env_def)
  have lib: "pdfjsLib example_world \<noteq> None"
    by (simp add: example_world_def)
  have ab: "arrayBuffer example_file = Inr [37, 80, 68]"
    by (simp add: example_file_def)
  have op: "openDocument silent_failure_env data w =
      (Inr \<lparr>numPages = 1, getPage = (\<lambda>k. Inl (JsError [])), getMetadata = Inr None\<rparr>,
       w\<lparr>getDocumentCalls := getDocumentCalls w + 1\<rparr>)" for data w
    by (simp add: openDocument_def callGetDocument_def silent_failure_env_def)
  have nt: "never_throws None"
    by (simp add: never_throws_def)
  have strip: "strip_pdf (name example_file) = ''Report''"
    by (simp add: upper_def example_file_def)
  show ?thesis
    unfolding extractPdfText_returns [OF lib example_ensure [OF ni] ab op nt] strip
    by (simp add: retrievalThrows_def readPage_def failedPage_def metaTitle_def metaAuthor_def
        titleMeta_def or_else_def example_file_def)
qed

section \<open>Title and author\<close>






section \<open>Opening the document\<close>

lemma extractPages_frame:
  "extractPages pdf cb i ps w = (r, w') \<Longrightarrow>
   pdfjsLib w' = pdfjsLib w \<and> getDocumentCalls w' = getDocumentCalls w \<and>
   cleanupCalls w' = cleanupCalls w"
proof (induction pdf cb i ps w rule: extractPages.induct)
  case (1 pdf onProgress pageIndex ps w)
  show ?case
  proof (cases "pageIndex \<le> numPages pdf")
    case False
    with "1.prems" show ?thesis by (simp add: extractPages_done)
  next
    case True
    show ?thesis
    proof (cases onProgress)
      case None
      with True "1.prems" "1.IH"(1) [OF True refl refl None] show ?thesis
        by (simp add: extractPages_None)
    next
      case (Some f)
      define w2 where "w2 = w\<lparr>pageRequests := pageRequests w @ [pageIndex],
                 progressCalls := progressCalls w @ [progressPercent pageIndex (numPages pdf)]\<rparr>"
      show ?thesis
      proof (cases "f (progressCalls w2)")
        case None
        with Some True "1.prems" have
          "extractPages pdf onProgress (pageIndex + 1) (ps @ [readPage pdf pageIndex]) w2 = (r, w')"
          by (simp add: extractPages_Some w2_def Let_def)
        from "1.IH"(2) [OF True refl refl Some _ _ this] None show ?thesis
          by (simp add: w2_def)
      next
        case (Some e)
        with \<open>onProgress = Some f\<close> True "1.prems" show ?thesis
          by (auto simp: extractPages_Some w2_def Let_def)
      qed
    qed
  qed
qed

lemma extractPdfText_after_open:
  assumes "pdfjsLib w \<noteq> None"
    and "ensurePdfWorker env w = (Inr u, w1)"
    and "arrayBuffer file = Inr data"
    and "openDocument env data w1 = (ro, w2)"
  shows "pdfjsLib (snd (extractPdfText env file cb w)) = pdfjsLib w2 \<and>
         getDocumentCalls (snd (extractPdfText env file cb w)) = getDocumentCalls w2 \<and>
         (\<forall>e. ro = Inl e \<longrightarrow> extractPdfText env file cb w = (Inl e, w2))"
proof (cases ro)
  case (Inl e)
  with assms show ?thesis
    by (auto simp: extractPdfText_def)
next
  case (Inr pdf)
  obtain r3 w3 where e3: "extractPages pdf cb 1 [] w2 = (r3, w3)"
    by (cases "extractPages pdf cb 1 [] w2")
  from extractPages_frame [OF e3] assms Inr e3 show ?thesis
    by (cases r3) (auto simp: extractPdfText_def Let_def)
qed

lemma ensurePdfWorker_disableWorker:
  "libDisableWorker (snd (ensurePdfWorker env w)) = libDisableWorker w"
proof -
  have fb: "libDisableWorker (useFallbackWorker v) = libDisableWorker v" for v
    by (auto simp: useFallbackWorker_def settle_def setWorkerSrc_def libDisableWorker_def
        split: option.splits)
  have fb': "libDisableWorker (useFallbackWorker (v\<lparr>pdfWorkerBlobUrl := b\<rparr>)) = libDisableWorker v" for v b
    by (simp add: fb) (simp add: libDisableWorker_def)
  have inl: "libDisableWorker (inlineWorker env v) = libDisableWorker v" for v
    by (simp add: inlineWorker_def fb Let_def split: sum.splits)
      (auto simp: fb' settle_def setWorkerSrc_def libDisableWorker_def split: option.splits)
  have start: "libDisableWorker (startProvisioning env w) = libDisableWorker w"
    using fb [of "w\<lparr>provisioningAttempts := provisioningAttempts w + 1\<rparr>"]
    by (simp add: startProvisioning_def Let_def) (simp add: libDisableWorker_def)
  have fin: "libDisableWorker (finishProvisioning env v) = libDisableWorker v" for v
    by (simp add: finishProvisioning_def inl)
  show ?thesis
    by (simp add: ensurePdfWorker_def ensurePdfWorker_begin_def Let_def fin start
        split: option.splits promise.splits)
qed

text \<open>
  Claim C6, as amended. Let the first \<^verbatim>\<open>getDocument\<close> of an extraction fail with \<open>e\<close>.
  If the message of \<open>e\<close> matches neither pattern, \<open>e\<close> goes to the caller after that one
  call. If it matches one, the library's \<open>disableWorker\<close> becomes true when the library
  has that flag as a boolean (a library without it is left as it is), \<^verbatim>\<open>getDocument\<close>
  is called exactly once more, and a failure of that second call goes to the caller.
\<close>

theorem worker_failure_is_retried_once:
  assumes "pdfjsLib w \<noteq> None"
    and "ensurePdfWorker env w = (Inr u, w1)"
    and "arrayBuffer file = Inr data"
    and "getDocument env (getDocumentCalls w) (libDisableWorker w) data = Inl e"
  shows "(\<not> workerFailed (thrown_message e) \<longrightarrow>
            fst (extractPdfText env file cb w) = Inl e \<and>
            getDocumentCalls (snd (extractPdfText env file cb w)) = getDocumentCalls w + 1 \<and>
            libDisableWorker (snd (extractPdfText env file cb w)) = libDisableWorker w) \<and>
         (workerFailed (thrown_message e) \<longrightarrow>
            getDocumentCalls (snd (extractPdfText env file cb w)) = getDocumentCalls w + 2 \<and>
            libDisableWorker (snd (extractPdfText env file cb w)) = disabled (libDisableWorker w) \<and>
            (\<forall>e2. getDocument env (getDocumentCalls w + 1) (disabled (libDisableWorker w)) data = Inl e2
               \<longrightarrow> fst (extractPdfText env file cb w) = Inl e2))"
proof -
  from ensurePdfWorker_trace [of env w] assms(2) have calls: "getDocumentCalls w1 = getDocumentCalls w"
    by (simp add: extraction_trace_def)
  from ensurePdfWorker_disableWorker [of env w] assms(2) have flag: "libDisableWorker w1 = libDisableWorker w"
    by simp
  from assms(4) calls flag have first:
    "callGetDocument env data w1 = (Inl e, w1\<lparr>getDocumentCalls := getDocumentCalls w + 1\<rparr>)"
    by (simp add: callGetDocument_def libDisableWorker_def)
  obtain ro w2 where op: "openDocument env data w1 = (ro, w2)"
    by (cases "openDocument env data w1")
  note after = extractPdfText_after_open [OF assms(1-3) op, of cb]
  show ?thesis
  proof (cases "workerFailed (thrown_message e)")
    case False
    with op first have "ro = Inl e" "w2 = w1\<lparr>getDocumentCalls := getDocumentCalls w + 1\<rparr>"
      by (simp_all add: openDocument_def)
    with after False flag show ?thesis
      by (simp add: libDisableWorker_def)
  next
    case True
    define w1' where "w1' = setDisableWorker (w1\<lparr>getDocumentCalls := getDocumentCalls w + 1\<rparr>)"
    have "libDisableWorker (setDisableWorker v) = disabled (libDisableWorker v)" for v
    proof (cases "pdfjsLib v")
      case None
      then show ?thesis
        by (simp add: setDisableWorker_def libDisableWorker_def disabled_def)
    next
      case (Some lib)
      then show ?thesis
        by (cases "disableWorker lib")
          (simp_all add: setDisableWorker_def libDisableWorker_def disabled_def)
    qed
    from this [of "w1\<lparr>getDocumentCalls := getDocumentCalls w + 1\<rparr>"] flag
    have flag': "libDisableWorker w1' = disabled (libDisableWorker w)"
      by (simp add: w1'_def) (simp add: libDisableWorker_def)
    have calls': "getDocumentCalls w1' = getDocumentCalls w + 1"
      by (auto simp: w1'_def setDisableWorker_def split: option.splits)
    from op first True have "callGetDocument env data w1' = (ro, w2)"
      by (simp add: openDocument_def w1'_def)
    then have ro: "ro = getDocument env (getDocumentCalls w + 1) (disabled (libDisableWorker w)) data"
      and w2: "w2 = w1'\<lparr>getDocumentCalls := getDocumentCalls w + 2\<rparr>"
      using flag' calls' by (auto simp: callGetDocument_def libDisableWorker_def)
    from w2 flag' have "libDisableWorker w2 = disabled (libDisableWorker w)"
      by (simp add: libDisableWorker_def)
    with after True ro w2 show ?thesis
      by (simp add: libDisableWorker_def)
  qed
qed

lemma worker_failure_messages:
  "workerFailed ''Setting up fake worker failed: bad gateway''"
  "workerFailed ''cannot load script at: pdf.worker.js''"
  "\<not> workerFailed ''Invalid PDF structure''"
  by code_simp+

lemma legacy_ensure: "ensurePdfWorker env legacy_world = (Inr (), legacy_world)"
  by (simp add: ensurePdfWorker_def ensurePdfWorker_begin_def legacy_world_def example_world_def
      currentWorker_def truthy_def)

theorem worker_failure_is_retried_once_witness:
  "workerFailed (thrown_message (JsError ''cannot load script at: pdf.worker.js'')) \<and>
   libDisableWorker legacy_world = Some False \<and>
   getDocumentCalls (snd (extractPdfText (flaky_env ''cannot load script at: pdf.worker.js'')
     example_file None legacy_world)) = 2 \<and>
   libDisableWorker (snd (extractPdfText (flaky_env ''cannot load script at: pdf.worker.js'')
     example_file None legacy_world)) = Some True \<and>
   \<not> workerFailed (thrown_message (JsError ''Invalid PDF structure'')) \<and>
   fst (extractPdfText (flaky_env ''Invalid PDF structure'') example_file None legacy_world) =
     Inl (JsError ''Invalid PDF structure'') \<and>
   getDocumentCalls (snd (extractPdfText (flaky_env ''Invalid PDF structure'') example_file None
     legacy_world)) = 1 \<and>
   libDisableWorker (snd (extractPdfText (flaky_env ''Invalid PDF structure'') example_file None
     legacy_world)) = Some False"
proof -
  have lib: "pdfjsLib legacy_world \<noteq> None"
    by (simp add: legacy_world_def)
  have ab: "arrayBuffer example_file = Inr [37, 80, 68]"
    by (simp add: example_file_def)
  have first: "getDocument (flaky_env m) (getDocumentCalls legacy_world)
      (libDisableWorker legacy_world) [37, 80, 68] = Inl (JsError m)" for m
    by (simp add: flaky_env_def legacy_world_def example_world_def)
  have flag: "libDisableWorker legacy_world = Some False"
    by (simp add: libDisableWorker_def legacy_world_def)
  have calls: "getDocumentCalls legacy_world = 0"
    by (simp add: legacy_world_def example_world_def)
  from worker_failure_is_retried_once [OF lib legacy_ensure ab first, of _ None]
    worker_failure_messages flag calls
  show ?thesis
    by (simp add: thrown_message_def disabled_def)
qed

theorem retry_leaves_library_without_flag:
  "workerFailed (thrown_message (JsError ''Setting up fake worker failed: bad gateway'')) \<and>
   getDocument (flaky_env ''Setting up fake worker failed: bad gateway'') 0 None [37, 80, 68] =
     Inl (JsError ''Setting up fake worker failed: bad gateway'') \<and>
   fst (extractPdfText (flaky_env ''Setting up fake worker failed: bad gateway'') example_file None
     example_world) = Inr example_result \<and>
   getDocumentCalls (snd (extractPdfText (flaky_env ''Setting up fake worker failed: bad gateway'')
     example_file None example_world)) = 2 \<and>
   pdfjsLib (snd (extractPdfText (flaky_env ''Setting up fake worker failed: bad gateway'')
     example_file None example_world)) =
     Some \<lparr>GlobalWorkerOptions = Some \<lparr>workerSrc = Some PDF_WORKER_SOURCE\<rparr>, disableWorker = None\<rparr>"
proof -
  let ?m = "''Setting up fake worker failed: bad gateway''"
  have ni: "\<not> canInlineWorker (flaky_env ?m)"
    by (simp add: canInlineWorker_def flaky_env_def example_env_def)
  have lib: "pdfjsLib example_world \<noteq> None"
    by (simp add: example_world_def)
  have ab: "arrayBuffer example_file = Inr [37, 80, 68]"
    by (simp add: example_file_def)
  have nt: "never_throws None"
    by (simp add: never_throws_def)
  have op: "openDocument (flaky_env ?m) data
      (example_world\<lparr>pdfjsLib := Some \<lparr>GlobalWorkerOptions = Some \<lparr>workerSrc = Some PDF_WORKER_SOURCE\<rparr>, disableWorker = None\<rparr>,
        pdfWorkerReadyPromise := Some Fulfilled, provisioningAttempts := 1\<rparr>) =
      (Inr example_pdf,
       example_world\<lparr>pdfjsLib := Some \<lparr>GlobalWorkerOptions = Some \<lparr>workerSrc = Some PDF_WORKER_SOURCE\<rparr>, disableWorker = None\<rparr>,
        pdfWorkerReadyPromise := Some Fulfilled, provisioningAttempts := 1, getDocumentCalls := 2\<rparr>)" for data
    using worker_failure_messages(1)
    by (simp add: openDocument_def callGetDocument_def flaky_env_def thrown_message_def
        setDisableWorker_def example_world_def)
  have n: "numPages example_pdf = 2"
    by (simp add: example_pdf_def)
  have upt: "[1..<Suc 2] = [1, 2::nat]"
    by code_simp
  have ps: "map (readPage example_pdf) [1, 2] = example_pages"
    by (simp add: example_readPage1 example_readPage2 example_pages_def)
  have meta: "metaTitle example_pdf = None" "metaAuthor example_pdf = None"
    by (simp_all add: metaTitle_def metaAuthor_def titleMeta_def example_pdf_def)
  have strip: "strip_pdf (name example_file) = ''Report''"
    by (simp add: upper_def example_file_def)
  show ?thesis
    unfolding extractPdfText_returns [OF lib example_ensure [OF ni] ab op nt] n upt ps meta strip
    using worker_failure_messages(1)
    by (simp add: example_world_def example_file_def or_else_def reported_def example_result_def
        thrown_message_def flaky_env_def)
qed

section \<open>Provisioning the worker\<close>

lemma useFallbackWorker_sets:
  assumes "pdfjsLib w = Some lib" and "GlobalWorkerOptions lib = Some opts"
  shows "pdfWorkerReadyPromise (useFallbackWorker w) = Some Fulfilled"
    and "currentWorker (useFallbackWorker w) = Some (or_else (pdfWorkerBlobUrl w) PDF_WORKER_SOURCE)"
  using assms
  by (simp_all add: useFallbackWorker_def setWorkerSrc_def settle_def currentWorker_def)

lemma inlineWorker_fails:
  assumes "inliningFails env" and "canInlineWorker env"
  shows "inlineWorker env w = useFallbackWorker w"
  using assms
  by (auto simp: inliningFails_def inlineWorker_def split: sum.splits)

lemma or_else_truthy: "d \<noteq> [] \<Longrightarrow> truthy (Some (or_else v d))"
  by (simp add: or_else_def truthy_def split: option.splits)

lemma or_else_cases: "Some (or_else v d) = v \<or> or_else v d = d"
  by (simp add: or_else_def split: option.splits)

text \<open>
  The fallback on a library that exposes its worker options. With no worker location
  configured and no provisioning started yet, if the worker script cannot be inlined (a
  capability is missing, the fetch fails, the status is not a success, or a later step of
  the inlining throws), the call returns normally and the worker location is then the
  cached blob URL, if there is one, and the remote script URL otherwise.
\<close>

lemma fallback_sets_worker_location:
  assumes "pdfjsLib w = Some lib"
    and "GlobalWorkerOptions lib = Some opts"
    and "\<not> truthy (workerSrc opts)"
    and "pdfWorkerReadyPromise w = None"
    and "inliningFails env"
  shows "fst (ensurePdfWorker env w) = Inr () \<and>
         currentWorker (snd (ensurePdfWorker env w)) =
           Some (or_else (pdfWorkerBlobUrl w) PDF_WORKER_SOURCE) \<and>
         truthy (currentWorker (snd (ensurePdfWorker env w))) \<and>
         (currentWorker (snd (ensurePdfWorker env w)) = pdfWorkerBlobUrl w \<or>
          currentWorker (snd (ensurePdfWorker env w)) = Some PDF_WORKER_SOURCE)"
proof -
  define w1 where "w1 = w\<lparr>provisioningAttempts := provisioningAttempts w + 1\<rparr>"
  define w2 where "w2 = w1\<lparr>fetchCalls := fetchCalls w1 + 1, pdfWorkerReadyPromise := Some Pending\<rparr>"
  have lib1: "pdfjsLib w1 = Some lib" "pdfWorkerBlobUrl w1 = pdfWorkerBlobUrl w"
    and lib2: "pdfjsLib w2 = Some lib" "pdfWorkerBlobUrl w2 = pdfWorkerBlobUrl w"
    using assms(1) by (simp_all add: w1_def w2_def)
  from assms(1-3) have unset: "\<not> truthy (currentWorker w)"
    by (simp add: currentWorker_def)
  have started: "ensurePdfWorker_begin env w = (Awaiting, startProvisioning env w)"
    using assms(1,4) unset by (simp add: ensurePdfWorker_begin_def)
  have "pdfWorkerReadyPromise (finishProvisioning env (startProvisioning env w)) = Some Fulfilled \<and>
        currentWorker (finishProvisioning env (startProvisioning env w)) =
          Some (or_else (pdfWorkerBlobUrl w) PDF_WORKER_SOURCE)"
  proof (cases "canInlineWorker env")
    case False
    then have "startProvisioning env w = useFallbackWorker w1"
      by (simp add: startProvisioning_def w1_def Let_def)
    with useFallbackWorker_sets [OF lib1(1) assms(2)] lib1(2) show ?thesis
      by (simp add: finishProvisioning_def)
  next
    case True
    then have "startProvisioning env w = w2"
      by (simp add: startProvisioning_def w1_def w2_def Let_def)
    moreover have "finishProvisioning env w2 = useFallbackWorker w2"
      using inlineWorker_fails [OF assms(5) True] by (simp add: finishProvisioning_def w2_def)
    ultimately show ?thesis
      using useFallbackWorker_sets [OF lib2(1) assms(2)] lib2(2) by simp
  qed
  with started have "fst (ensurePdfWorker env w) = Inr ()"
    and cur: "currentWorker (snd (ensurePdfWorker env w)) =
      Some (or_else (pdfWorkerBlobUrl w) PDF_WORKER_SOURCE)"
    by (simp_all add: ensurePdfWorker_def Let_def)
  moreover have "truthy (Some (or_else (pdfWorkerBlobUrl w) PDF_WORKER_SOURCE))"
    by (rule or_else_truthy) (simp add: PDF_WORKER_SOURCE_def)
  moreover note or_else_cases [of "pdfWorkerBlobUrl w" PDF_WORKER_SOURCE]
  ultimately show ?thesis
    by auto
qed

lemma fallback_sets_worker_location_example:
  "inliningFails offline_env \<and> canInlineWorker offline_env \<and>
   fetch offline_env = Inl (JsError ''Failed to fetch'') \<and>
   currentWorker example_world = None \<and>
   fst (ensurePdfWorker offline_env example_world) = Inr () \<and>
   currentWorker (snd (ensurePdfWorker offline_env example_world)) = Some PDF_WORKER_SOURCE \<and>
   currentWorker (snd (ensurePdfWorker offline_env (example_world\<lparr>pdfWorkerBlobUrl := Some ''blob:7''\<rparr>))) =
     Some ''blob:7''"
proof -
  have fails: "inliningFails offline_env"
    by (simp add: inliningFails_def offline_env_def example_env_def)
  have lib: "pdfjsLib (example_world\<lparr>pdfWorkerBlobUrl := b\<rparr>) =
      Some \<lparr>GlobalWorkerOptions = Some \<lparr>workerSrc = None\<rparr>, disableWorker = None\<rparr>" for b
    by (simp add: example_world_def)
  have opts: "GlobalWorkerOptions \<lparr>GlobalWorkerOptions = Some \<lparr>workerSrc = None\<rparr>, disableWorker = None\<rparr> =
      Some \<lparr>workerSrc = None\<rparr>"
    by simp
  have unset: "\<not> truthy (workerSrc \<lparr>workerSrc = None\<rparr>)"
    by (simp add: truthy_def)
  have none: "pdfWorkerReadyPromise (example_world\<lparr>pdfWorkerBlobUrl := b\<rparr>) = None" for b
    by (simp add: example_world_def)
  have same: "example_world\<lparr>pdfWorkerBlobUrl := None\<rparr> = example_world"
    by (simp add: example_world_def)
  from fallback_sets_worker_location [OF lib opts unset none fails, of None]
    fallback_sets_worker_location [OF lib opts unset none fails, of "Some ''blob:7''"]
    fails
  show ?thesis
    unfolding same
    by (simp add: or_else_def)
      (simp add: canInlineWorker_def offline_env_def example_env_def currentWorker_def example_world_def)
qed

lemma useFallbackWorker_throws:
  assumes "pdfjsLib w = Some lib" and "GlobalWorkerOptions lib = None"
  shows "pdfWorkerReadyPromise (useFallbackWorker w) =
           Some (Rejected (JsError ''Cannot set properties of undefined''))"
    and "pdfjsLib (useFallbackWorker w) = Some lib"
  using assms
  by (simp_all add: useFallbackWorker_def setWorkerSrc_def settle_def)

text \<open>
  The fallback on a library that does not expose its worker options. Line 11 reads them
  with \<^verbatim>\<open>?.\<close> and so lets such a library pass, but line 39 writes to them unguarded and
  outside the \<^verbatim>\<open>try\<close> block: the write throws, the promise of the provisioning body is
  rejected, the call ends with that exception and no worker location is set.
\<close>

lemma missing_options_leave_worker_unset:
  assumes "pdfjsLib w = Some lib"
    and "GlobalWorkerOptions lib = None"
    and "pdfWorkerReadyPromise w = None"
    and "inliningFails env"
  shows "fst (ensurePdfWorker env w) = Inl (JsError ''Cannot set properties of undefined'') \<and>
         currentWorker (snd (ensurePdfWorker env w)) = None"
proof -
  define w1 where "w1 = w\<lparr>provisioningAttempts := provisioningAttempts w + 1\<rparr>"
  define w2 where "w2 = w1\<lparr>fetchCalls := fetchCalls w1 + 1, pdfWorkerReadyPromise := Some Pending\<rparr>"
  have lib1: "pdfjsLib w1 = Some lib" and lib2: "pdfjsLib w2 = Some lib"
    using assms(1) by (simp_all add: w1_def w2_def)
  from assms(1,2) have unset: "\<not> truthy (currentWorker w)"
    by (simp add: currentWorker_def truthy_def)
  have started: "ensurePdfWorker_begin env w = (Awaiting, startProvisioning env w)"
    using assms(1,3) unset by (simp add: ensurePdfWorker_begin_def)
  have "pdfWorkerReadyPromise (finishProvisioning env (startProvisioning env w)) =
          Some (Rejected (JsError ''Cannot set properties of undefined'')) \<and>
        pdfjsLib (finishProvisioning env (startProvisioning env w)) = Some lib"
  proof (cases "canInlineWorker env")
    case False
    then have "startProvisioning env w = useFallbackWorker w1"
      by (simp add: startProvisioning_def w1_def Let_def)
    with useFallbackWorker_throws [OF lib1 assms(2)] show ?thesis
      by (simp add: finishProvisioning_def)
  next
    case True
    then have "startProvisioning env w = w2"
      by (simp add: startProvisioning_def w1_def w2_def Let_def)
    moreover have "finishProvisioning env w2 = useFallbackWorker w2"
      using inlineWorker_fails [OF assms(4) True] by (simp add: finishProvisioning_def w2_def)
    ultimately show ?thesis
      using useFallbackWorker_throws [OF lib2 assms(2)] by simp
  qed
  with started assms(2) show ?thesis
    by (simp add: ensurePdfWorker_def Let_def currentWorker_def)
qed

text \<open>
  Claim C7. After a failed fetch of the worker script the worker location is the cached
  blob URL or the remote script URL, never unset. The code does not achieve this for a
  loaded library without worker options: the fetch is called once and rejects, and the
  provisioning attempt then ends with the exception of line 39 and the worker location
  unset.
\<close>

theorem worker_location_left_unset:
  "canInlineWorker offline_env \<and>
   fetch offline_env = Inl (JsError ''Failed to fetch'') \<and>
   pdfjsLib optionless_world = Some \<lparr>GlobalWorkerOptions = None, disableWorker = None\<rparr> \<and>
   pdfWorkerReadyPromise optionless_world = None \<and>
   fst (ensurePdfWorker offline_env optionless_world) =
     Inl (JsError ''Cannot set properties of undefined'') \<and>
   fetchCalls (snd (ensurePdfWorker offline_env optionless_world)) = 1 \<and>
   currentWorker (snd (ensurePdfWorker offline_env optionless_world)) = None"
  by (simp add: ensurePdfWorker_def ensurePdfWorker_begin_def startProvisioning_def
      finishProvisioning_def inlineWorker_def useFallbackWorker_def setWorkerSrc_def settle_def
      canInlineWorker_def currentWorker_def truthy_def or_else_def Let_def
      offline_env_def example_env_def optionless_world_def example_world_def)

text \<open>
  The same happens when a capability is missing and the fetch is never called.
\<close>

lemma missing_capability_leaves_worker_unset:
  "\<not> canInlineWorker example_env \<and>
   fst (ensurePdfWorker example_env optionless_world) =
     Inl (JsError ''Cannot set properties of undefined'') \<and>
   currentWorker (snd (ensurePdfWorker example_env optionless_world)) = None"
  by (simp add: ensurePdfWorker_def ensurePdfWorker_begin_def startProvisioning_def
      finishProvisioning_def inlineWorker_def useFallbackWorker_def setWorkerSrc_def settle_def
      canInlineWorker_def currentWorker_def truthy_def or_else_def Let_def
      example_env_def optionless_world_def example_world_def)

section \<open>Many callers of the provisioner\<close>

lemma useFallbackWorker_counts:
  "pdfWorkerReadyPromise (useFallbackWorker w) \<noteq> None"
  "provisioningAttempts (useFallbackWorker w) = provisioningAttempts w"
  "fetchCalls (useFallbackWorker w) = fetchCalls w"
  by (simp_all add: useFallbackWorker_def settle_def setWorkerSrc_def split: option.splits
      del: not_None_eq)

lemma inlineWorker_counts:
  "pdfWorkerReadyPromise (inlineWorker env w) \<noteq> None \<and>
   provisioningAttempts (inlineWorker env w) = provisioningAttempts w \<and>
   fetchCalls (inlineWorker env w) = fetchCalls w"
proof -
  have "pdfWorkerReadyPromise (useFallbackWorker (w\<lparr>pdfWorkerBlobUrl := b\<rparr>)) \<noteq> None \<and>
      provisioningAttempts (useFallbackWorker (w\<lparr>pdfWorkerBlobUrl := b\<rparr>)) = provisioningAttempts w \<and>
      fetchCalls (useFallbackWorker (w\<lparr>pdfWorkerBlobUrl := b\<rparr>)) = fetchCalls w" for b
    by (simp add: useFallbackWorker_counts del: not_None_eq)
  then show ?thesis
    by (simp add: inlineWorker_def useFallbackWorker_counts Let_def split: sum.splits
        del: not_None_eq)
      (auto simp: settle_def setWorkerSrc_def split: option.splits simp del: not_None_eq)
qed

lemma step_provisioned_once:
  assumes "provisioned_once w"
  shows "provisioned_once (step env w ev)"
proof (cases ev)
  case Call
  show ?thesis
  proof (cases "pdfjsLib w \<noteq> None \<and> \<not> truthy (currentWorker w) \<and> pdfWorkerReadyPromise w = None")
    case False
    with assms Call show ?thesis
      by (auto simp: ensurePdfWorker_begin_def simp del: not_None_eq)
  next
    case True
    with Call have st: "step env w ev = startProvisioning env w"
      by (simp add: ensurePdfWorker_begin_def del: not_None_eq)
    from True assms have zero: "provisioningAttempts w = 0" "fetchCalls w = 0"
      by (simp_all add: provisioned_once_def)
    show ?thesis
    proof (cases "canInlineWorker env")
      case True
      with zero show ?thesis
        unfolding st by (simp add: startProvisioning_def provisioned_once_def Let_def)
    next
      case False
      with zero show ?thesis
        unfolding st
        by (simp add: startProvisioning_def provisioned_once_def Let_def useFallbackWorker_counts)
    qed
  qed
next
  case Resume
  show ?thesis
  proof (cases "pdfWorkerReadyPromise w = Some Pending")
    case True
    with assms Resume inlineWorker_counts [of env w] show ?thesis
      by (simp add: finishProvisioning_def provisioned_once_def)
  next
    case False
    with assms Resume show ?thesis
      by (simp add: finishProvisioning_def)
  qed
qed

lemma run_provisioned_once: "provisioned_once w \<Longrightarrow> provisioned_once (run env evs w)"
  unfolding run_def
  by (induction evs arbitrary: w) (simp_all add: step_provisioned_once)

text \<open>
  Claim C8. From the state in which the module was loaded, whatever calls of
  \<^verbatim>\<open>ensurePdfWorker\<close> and resumptions of the pending promise follow in whatever order, the
  provisioning body is started at most once and \<^verbatim>\<open>fetch\<close> is called at most once; once
  the shared promise exists it was started exactly once, and a further call changes
  nothing: it returns or awaits that promise.
\<close>

theorem one_provisioning_attempt:
  assumes "fresh w"
  shows "provisioningAttempts (run env evs w) \<le> 1 \<and> fetchCalls (run env evs w) \<le> 1 \<and>
         (pdfjsLib w \<noteq> None \<and> \<not> truthy (currentWorker w) \<longrightarrow>
            pdfWorkerReadyPromise (step env w Call) \<noteq> None \<and>
            provisioningAttempts (step env w Call) = 1) \<and>
         (pdfWorkerReadyPromise (run env evs w) \<noteq> None \<longrightarrow>
            provisioningAttempts (run env evs w) = 1 \<and>
            step env (run env evs w) Call = run env evs w \<and>
            (pdfjsLib (run env evs w) \<noteq> None \<and> \<not> truthy (currentWorker (run env evs w)) \<longrightarrow>
               fst (ensurePdfWorker_begin env (run env evs w)) = Awaiting))"
proof -
  from assms have start: "provisioned_once w"
    by (simp add: fresh_def provisioned_once_def)
  then have "provisioned_once (run env evs w)"
    by (rule run_provisioned_once)
  then have later: "provisioningAttempts (run env evs w) \<le> 1 \<and> fetchCalls (run env evs w) \<le> 1 \<and>
         (pdfWorkerReadyPromise (run env evs w) \<noteq> None \<longrightarrow>
            provisioningAttempts (run env evs w) = 1 \<and>
            step env (run env evs w) Call = run env evs w \<and>
            (pdfjsLib (run env evs w) \<noteq> None \<and> \<not> truthy (currentWorker (run env evs w)) \<longrightarrow>
               fst (ensurePdfWorker_begin env (run env evs w)) = Awaiting))"
    by (auto simp: provisioned_once_def ensurePdfWorker_begin_def split: if_splits)
  have first: "pdfWorkerReadyPromise (step env w Call) \<noteq> None \<and>
      provisioningAttempts (step env w Call) = 1"
    if "pdfjsLib w \<noteq> None" "\<not> truthy (currentWorker w)"
  proof -
    from that assms have st: "step env w Call = startProvisioning env w"
      and zero: "provisioningAttempts w = 0"
      by (simp_all add: ensurePdfWorker_begin_def fresh_def del: not_None_eq)
    show ?thesis
      unfolding st using zero
      by (cases "canInlineWorker env")
        (simp_all add: startProvisioning_def Let_def useFallbackWorker_counts del: not_None_eq)
  qed
  from later first show ?thesis
    by blast
qed

theorem one_provisioning_attempt_witness:
  "fresh example_world \<and>
   provisioningAttempts (run offline_env [Call, Call, Resume, Call] example_world) = 1 \<and>
   fetchCalls (run offline_env [Call, Call, Resume, Call] example_world) = 1 \<and>
   pdfWorkerReadyPromise (run offline_env [Call, Call, Resume, Call] example_world) = Some Fulfilled \<and>
   step offline_env (run offline_env [Call, Call, Resume, Call] example_world) Call =
     run offline_env [Call, Call, Resume, Call] example_world \<and>
   fst (ensurePdfWorker_begin offline_env (run offline_env [Call, Call] example_world)) = Awaiting \<and>
   provisioningAttempts (run offline_env [Call, Call] example_world) = 1 \<and>
   pdfWorkerReadyPromise (step offline_env example_world Call) = Some Pending"
proof -
  have f: "fresh example_world"
    by (simp add: fresh_def example_world_def)
  have can: "canInlineWorker offline_env"
    by (simp add: canInlineWorker_def offline_env_def example_env_def)
  have two: "run offline_env [Call, Call] example_world =
      example_world\<lparr>provisioningAttempts := 1, fetchCalls := 1, pdfWorkerReadyPromise := Some Pending\<rparr>"
    using can
    by (simp add: run_def ensurePdfWorker_begin_def startProvisioning_def currentWorker_def truthy_def
        example_world_def)
  have four: "pdfWorkerReadyPromise (run offline_env [Call, Call, Resume, Call] example_world) =
      Some Fulfilled"
    using two
    by (simp add: run_def finishProvisioning_def inlineWorker_def offline_env_def example_env_def
        useFallbackWorker_def setWorkerSrc_def settle_def example_world_def or_else_def
        ensurePdfWorker_begin_def currentWorker_def truthy_def PDF_WORKER_SOURCE_def)
  have fc: "fetchCalls (run offline_env [Call, Call, Resume, Call] example_world) = 1"
    using two
    by (simp add: run_def finishProvisioning_def inlineWorker_def offline_env_def example_env_def
        useFallbackWorker_def setWorkerSrc_def settle_def example_world_def or_else_def
        ensurePdfWorker_begin_def currentWorker_def truthy_def PDF_WORKER_SOURCE_def)
  have aw: "fst (ensurePdfWorker_begin offline_env (run offline_env [Call, Call] example_world)) = Awaiting"
    unfolding two
    by (simp add: ensurePdfWorker_begin_def currentWorker_def truthy_def example_world_def)
  have one: "pdfWorkerReadyPromise (step offline_env example_world Call) = Some Pending"
    using can
    by (simp add: ensurePdfWorker_begin_def startProvisioning_def currentWorker_def truthy_def
        example_world_def)
  from one_provisioning_attempt [OF f, of offline_env "[Call, Call, Resume, Call]"]
    one_provisioning_attempt [OF f, of offline_env "[Call, Call]"] f four fc aw two one
  show ?thesis
    by simp
qed

section \<open>Lines of a text\<close>

declare split_from.simps [simp del]

lemma sentence_lines_nonempty: "sentence_lines b s \<noteq> []"
  by (cases s) (simp_all add: prepend_first_def split: list.splits)

lemma prepend_first_Nil: "ls \<noteq> [] \<Longrightarrow> prepend_first [] ls = ls"
  by (cases ls) (simp_all add: prepend_first_def)

lemma prepend_first_twice: "prepend_first x (prepend_first y ls) = prepend_first (x @ y) ls"
  by (cases ls) (simp_all add: prepend_first_def)

lemma substring_step:
  "p \<le> q \<Longrightarrow> q < length s \<Longrightarrow> substring s p (Suc q) = substring s p q @ [s ! q]"
proof -
  assume "p \<le> q" "q < length s"
  then have "take (Suc (q - p)) (drop p s) = take (q - p) (drop p s) @ [drop p s ! (q - p)]"
    by (simp add: take_Suc_conv_app_nth)
  with \<open>p \<le> q\<close> \<open>q < length s\<close> show ?thesis
    by (simp add: substring_def Suc_diff_le)
qed

lemma run_end:
  assumes "q < length s" and "P (s ! q)"
  defines "e \<equiv> q + length (takeWhile P (drop q s))"
  shows "q < e" and "e \<le> length s" and "drop e s = dropWhile P (drop (Suc q) s)"
    and "P (s ! (e - 1))"
proof -
  from assms(1) have d: "drop q s = s ! q # drop (Suc q) s"
    by (simp add: Cons_nth_drop_Suc)
  let ?n = "length (takeWhile P (drop q s))"
  from d assms(2) have n: "0 < ?n" by simp
  then show "q < e" by (simp add: e_def)
  have "?n \<le> length (drop q s)" by (rule length_takeWhile_le)
  then show "e \<le> length s" using assms(1) by (simp add: e_def)
  have "drop e s = drop ?n (drop q s)"
    by (simp add: e_def add.commute)
  also have "\<dots> = dropWhile P (drop q s)"
    by (simp add: dropWhile_eq_drop)
  also have "\<dots> = dropWhile P (drop (Suc q) s)"
    using assms(2) by (simp add: d)
  finally show "drop e s = dropWhile P (drop (Suc q) s)" .
  from n have "?n - 1 < ?n" by simp
  then have "takeWhile P (drop q s) ! (?n - 1) \<in> set (takeWhile P (drop q s))"
    by (rule nth_mem)
  then have "P (takeWhile P (drop q s) ! (?n - 1))"
    by (rule set_takeWhileD [THEN conjunct2])
  moreover have "takeWhile P (drop q s) ! (?n - 1) = drop q s ! (?n - 1)"
    using \<open>?n - 1 < ?n\<close> by (rule takeWhile_nth)
  moreover have "q + (?n - 1) = e - 1"
    using n unfolding e_def by linarith
  then have "drop q s ! (?n - 1) = s ! (e - 1)"
    using assms(1) by simp
  ultimately show "P (s ! (e - 1))" by simp
qed

lemma not_space_period: "\<not> is_space (CHR ''.'')" "\<not> is_newline (CHR ''.'')"
  by (simp_all add: is_space_def is_newline_def)

lemma newline_is_space: "is_newline c \<Longrightarrow> is_space c"
  by (simp add: is_space_def is_newline_def)

lemma split_from_lines:
  "p \<le> q \<Longrightarrow> q \<le> length s \<Longrightarrow>
   split_from s p q =
     prepend_first (substring s p q)
       (sentence_lines (0 < q \<and> s ! (q - 1) = CHR ''.'') (drop q s))"
proof (induction s p q rule: split_from.induct)
  case (1 s p q)
  show ?case
  proof (cases "q < length s")
    case False
    with "1.prems" have "q = length s" by simp
    then show ?thesis
      by (subst split_from.simps) (simp add: prepend_first_def)
  next
    case True
    then have d: "drop q s = s ! q # drop (Suc q) s"
      by (simp add: Cons_nth_drop_Suc)
    let ?ap = "0 < q \<and> s ! (q - 1) = CHR ''.''"
    have after: "split_from s p q = substring s p q # sentence_lines False (dropWhile P (drop (Suc q) s))"
      if m: "matchAt s q = Some (q + length (takeWhile P (drop q s)))" and P: "P (s ! q)"
        and np: "\<not> P (CHR ''.'')" for P
    proof -
      let ?e = "q + length (takeWhile P (drop q s))"
      note e = run_end [of q s P, OF True P]
      from e(1,2) "1.prems" have min: "min ?e (length s) = ?e" and ne: "?e \<noteq> p"
        by linarith+
      from e(4) np have flag: "(0 < ?e \<and> s ! (?e - 1) = CHR ''.'') = False"
        by auto
      have "split_from s ?e ?e =
          prepend_first (substring s ?e ?e)
            (sentence_lines (0 < ?e \<and> s ! (?e - 1) = CHR ''.'') (drop ?e s))"
        by (rule "1.IH"(3) [OF True m refl, unfolded min, OF ne le_refl e(2)])
      also have "\<dots> = sentence_lines False (dropWhile P (drop (Suc q) s))"
        unfolding flag e(3)
        by (simp add: substring_def prepend_first_Nil sentence_lines_nonempty)
      finally have "split_from s ?e ?e = sentence_lines False (dropWhile P (drop (Suc q) s))" .
      with True m min ne show ?thesis
        by (simp add: split_from.simps [of s p q] Let_def)
    qed
    show ?thesis
    proof (cases "?ap \<and> is_space (s ! q)")
      case A: True
      then have "matchAt s q = Some (q + length (takeWhile is_space (drop q s)))"
        by (simp add: matchAt_def)
      from after [OF this] A not_space_period(1) show ?thesis
        by (simp add: d prepend_first_def)
    next
      case notA: False
      show ?thesis
      proof (cases "is_newline (s ! q)")
        case B: True
        with notA have "matchAt s q = Some (q + length (takeWhile is_newline (drop q s)))"
          by (auto simp: matchAt_def)
        from after [OF this B not_space_period(2)] notA B show ?thesis
          by (auto simp: d prepend_first_def)
      next
        case notB: False
        with notA have m: "matchAt s q = None"
          by (auto simp: matchAt_def)
        from True "1.prems" have "Suc q \<le> length s" "p \<le> Suc q" by simp_all
        with "1.IH"(1) [OF True m] have
          "split_from s p (Suc q) =
             prepend_first (substring s p (Suc q))
               (sentence_lines (s ! q = CHR ''.'') (drop (Suc q) s))"
          by simp
        with True m notA notB "1.prems" show ?thesis
          by (auto simp: split_from.simps [of s p q] d substring_step prepend_first_twice)
      qed
    qed
  qed
qed

lemma split_lines_sentence_lines: "split_lines s = sentence_lines False s"
proof (cases "s = []")
  case True
  then show ?thesis by (simp add: split_lines_def)
next
  case False
  with split_from_lines [of 0 0 s] show ?thesis
    by (simp add: split_lines_def substring_def prepend_first_Nil sentence_lines_nonempty)
qed

lemma looks_tabular_words:
  "looks_tabular line \<longleftrightarrow>
     (\<exists>c\<in>set line. c \<in> set ''0123456789'') \<and> (CHR '':'' \<in> set line \<or> CHR '','' \<in> set line)"
  by (auto simp: looks_tabular_def list_ex_iff is_digit_def)

lemma example_harvest:
  "harvestTables example_pages_in = [\<lparr>page = 0, content = ''Revenue: 100, up 5%.''\<rparr>]"
  unfolding example_pages_in_def by code_simp

lemma more_harvest:
  "harvestTables more_pages_in = [\<lparr>page = 1, content = ''a:1''\<rparr>, \<lparr>page = 1, content = ''2,c''\<rparr>]"
  unfolding more_pages_in_def by code_simp

text \<open>
  Claim C5. \<^verbatim>\<open>harvestTables\<close> goes through the pages in order, skips those without
  \<open>hasTextContent\<close> or with an empty text, splits the text of each other page into lines
  (a line ends directly after a period that whitespace follows, and at a run of newlines),
  keeps the lines with a digit and a colon or comma, in order, and tags each with the
  \<open>index\<close> of its page. The page of the example yields its first sentence only.
\<close>

theorem harvest_keeps_tabular_lines:
  "harvestTables ps =
     [\<lparr>page = index p, content = line\<rparr>.
        p \<leftarrow> ps, hasTextContent p \<and> text' p \<noteq> [],
        line \<leftarrow> sentence_lines False (text' p),
        (\<exists>c\<in>set line. c \<in> set ''0123456789'') \<and> (CHR '':'' \<in> set line \<or> CHR '','' \<in> set line)] \<and>
   harvestTables
     [\<lparr>index = 0, text' = ''Revenue: 100, up 5%. Notes here.'', hasTextContent = True,
       error = None\<rparr>] =
     [\<lparr>page = 0, content = ''Revenue: 100, up 5%.''\<rparr>]"
proof
  have lines: "map f (filter looks_tabular ls) =
      concat (map (\<lambda>line. if (\<exists>c\<in>set line. c \<in> set ''0123456789'') \<and>
        (CHR '':'' \<in> set line \<or> CHR '','' \<in> set line) then [f line] else []) ls)"
    for f :: "string \<Rightarrow> nat table_candidate" and ls
    by (induction ls) (simp_all add: looks_tabular_words)
  have pages: "concat (map g (filter P xs)) = concat (map (\<lambda>p. if P p then g p else []) xs)"
    for g :: "page_result \<Rightarrow> nat table_candidate list" and P xs
    by (induction xs) simp_all
  show "harvestTables ps =
     [\<lparr>page = index p, content = line\<rparr>.
        p \<leftarrow> ps, hasTextContent p \<and> text' p \<noteq> [],
        line \<leftarrow> sentence_lines False (text' p),
        (\<exists>c\<in>set line. c \<in> set ''0123456789'') \<and> (CHR '':'' \<in> set line \<or> CHR '','' \<in> set line)]"
    unfolding harvestTables_def split_lines_sentence_lines lines pages ..
  show "harvestTables
     [\<lparr>index = 0, text' = ''Revenue: 100, up 5%. Notes here.'', hasTextContent = True,
       error = None\<rparr>] =
     [\<lparr>page = 0, content = ''Revenue: 100, up 5%.''\<rparr>]"
    using example_harvest by (simp add: example_pages_in_def)
qed

theorem harvest_keeps_tabular_lines_witness:
  "harvestTables more_pages_in =
     [\<lparr>page = 1, content = ''a:1''\<rparr>, \<lparr>page = 1, content = ''2,c''\<rparr>] \<and>
   [\<lparr>page = index p, content = line\<rparr>.
        p \<leftarrow> more_pages_in, hasTextContent p \<and> text' p \<noteq> [],
        line \<leftarrow> sentence_lines False (text' p),
        (\<exists>c\<in>set line. c \<in> set ''0123456789'') \<and> (CHR '':'' \<in> set line \<or> CHR '','' \<in> set line)] =
     [\<lparr>page = 1, content = ''a:1''\<rparr>, \<lparr>page = 1, content = ''2,c''\<rparr>]"
  using harvest_keeps_tabular_lines [of more_pages_in, THEN conjunct1] more_harvest
  by simp

section \<open>Harvesting from any value\<close>

lemma get_property_defined:
  "p \<noteq> JsUndefined \<Longrightarrow> p \<noteq> JsNull \<Longrightarrow> \<exists>v. get_property p n = Inr v"
  by (cases p) simp_all

lemma get_property_Inr:
  "get_property p n = Inr v \<Longrightarrow> p \<noteq> JsUndefined \<and> p \<noteq> JsNull"
  by (cases p) simp_all

lemma filter_pages_defined:
  "(\<forall>p\<in>set ps. p \<noteq> JsUndefined \<and> p \<noteq> JsNull) \<Longrightarrow> filter_pages ps = Inr (filter wanted ps)"
proof (induction ps)
  case Nil
  show ?case by simp
next
  case (Cons p ps)
  then have rest: "filter_pages ps = Inr (filter wanted ps)"
    and p: "p \<noteq> JsUndefined" "p \<noteq> JsNull"
    by simp_all
  from get_property_defined [OF p] obtain h t where
    ht: "get_property p ''hasTextContent'' = Inr h" "get_property p ''text'' = Inr t"
    by blast
  then have "wanted p = (js_truthy h \<and> js_truthy t)"
    by (simp add: wanted_def)
  with rest ht show ?case
    by simp
qed

lemma filter_pages_Inr:
  "filter_pages ps = Inr kept \<Longrightarrow> \<forall>p\<in>set ps. p \<noteq> JsUndefined \<and> p \<noteq> JsNull"
proof (induction ps arbitrary: kept)
  case Nil
  show ?case by simp
next
  case (Cons p ps)
  from Cons.prems obtain h where h: "get_property p ''hasTextContent'' = Inr h"
    by (cases "get_property p ''hasTextContent''") simp_all
  from Cons.prems h obtain kept' where "filter_pages ps = Inr kept'"
    by (cases "filter_pages ps") (auto split: sum.splits if_splits)
  with Cons.IH get_property_Inr [OF h] show ?case
    by simp
qed

lemma page_candidates_Inr: "(\<exists>cs. page_candidates p = Inr cs) \<longleftrightarrow> has_string_text p"
proof (cases "get_property p ''text''")
  case (Inl e)
  then show ?thesis
    by (simp add: page_candidates_def has_string_text_def)
next
  case (Inr t)
  from get_property_defined [OF get_property_Inr [OF Inr, THEN conjunct1]
      get_property_Inr [OF Inr, THEN conjunct2], of "''index''"]
  obtain i where "get_property p ''index'' = Inr i" ..
  with Inr show ?thesis
    by (cases t) (simp_all add: page_candidates_def has_string_text_def)
qed

lemma flat_map_pages_Inr:
  "(\<exists>cs. flat_map_pages ps = Inr cs) \<longleftrightarrow> (\<forall>p\<in>set ps. has_string_text p)"
proof (induction ps)
  case Nil
  show ?case by simp
next
  case (Cons p ps)
  show ?case
  proof (cases "page_candidates p")
    case (Inl e)
    with page_candidates_Inr [of p] show ?thesis by simp
  next
    case (Inr cs)
    with page_candidates_Inr [of p] have "has_string_text p" by auto
    with Inr Cons.IH show ?thesis
      by (cases "flat_map_pages ps") simp_all
  qed
qed

lemma harvestTables_any_returns:
  "(\<exists>cs. harvestTables_any (JsArray ps) = Inr cs) \<longleftrightarrow> (\<forall>p\<in>set ps. harvestable p)"
proof
  assume "\<exists>cs. harvestTables_any (JsArray ps) = Inr cs"
  then obtain cs kept where kept: "filter_pages ps = Inr kept" and cs: "flat_map_pages kept = Inr cs"
    by (auto simp: harvestTables_any_def split: sum.splits)
  note defined = filter_pages_Inr [OF kept]
  with kept filter_pages_defined [of ps] have "kept = filter wanted ps"
    by simp
  with cs flat_map_pages_Inr [of kept] have "\<forall>p\<in>set ps. wanted p \<longrightarrow> has_string_text p"
    by auto
  with defined show "\<forall>p\<in>set ps. harvestable p"
    by (simp add: harvestable_def)
next
  assume all: "\<forall>p\<in>set ps. harvestable p"
  then have "filter_pages ps = Inr (filter wanted ps)"
    by (intro filter_pages_defined) (simp add: harvestable_def)
  moreover from all have "\<forall>p\<in>set (filter wanted ps). has_string_text p"
    by (simp add: harvestable_def)
  with flat_map_pages_Inr [of "filter wanted ps"] obtain cs where
    "flat_map_pages (filter wanted ps) = Inr cs"
    by blast
  ultimately show "\<exists>cs. harvestTables_any (JsArray ps) = Inr cs"
    by (simp add: harvestTables_any_def)
qed

lemma harvestTables_any_wanted:
  assumes "\<forall>p\<in>set ps. harvestable p"
  shows "harvestTables_any (JsArray ps) = harvestTables_any (JsArray (filter wanted ps))"
proof -
  from assms have a: "filter_pages ps = Inr (filter wanted ps)"
    by (intro filter_pages_defined) (simp add: harvestable_def)
  from assms have "filter_pages (filter wanted ps) = Inr (filter wanted (filter wanted ps))"
    by (intro filter_pages_defined) (simp add: harvestable_def)
  with a show ?thesis
    by (simp add: harvestTables_any_def)
qed

lemma page_value_props:
  "get_property (page_value r) ''hasTextContent'' = Inr (JsBoolean (hasTextContent r))"
  "get_property (page_value r) ''text'' = Inr (JsString (text' r))"
  "get_property (page_value r) ''index'' = Inr (JsNumber (int (index r)))"
  by (simp_all add: page_value_def)

lemma harvestTables_any_page_results:
  "harvestTables_any (JsArray (map page_value rs)) = Inr (map as_value_candidate (harvestTables rs))"
proof -
  have w: "wanted (page_value r) \<longleftrightarrow> hasTextContent r \<and> text' r \<noteq> []" for r
    by (simp add: wanted_def page_value_props)
  have "filter_pages (map page_value rs) = Inr (filter wanted (map page_value rs))"
    by (intro filter_pages_defined) (simp add: page_value_def)
  also have "filter wanted (map page_value rs) =
      map page_value (filter (\<lambda>r. hasTextContent r \<and> text' r \<noteq> []) rs)"
    by (simp add: filter_map o_def w)
  finally have kept: "filter_pages (map page_value rs) =
      Inr (map page_value (filter (\<lambda>r. hasTextContent r \<and> text' r \<noteq> []) rs))" .
  have each: "page_candidates (page_value r) =
      Inr (map as_value_candidate
        (map (\<lambda>line. \<lparr>page = index r, content = line\<rparr>) (filter looks_tabular (split_lines (text' r)))))"
    for r
    by (simp add: page_candidates_def page_value_props as_value_candidate_def o_def)
  have flat: "flat_map_pages (map page_value xs) =
      Inr (map as_value_candidate
        (concat (map (\<lambda>p. map (\<lambda>line. \<lparr>page = index p, content = line\<rparr>)
                        (filter looks_tabular (split_lines (text' p)))) xs)))" for xs
    by (induction xs) (simp_all add: each)
  show ?thesis
    by (simp add: harvestTables_any_def kept flat harvestTables_def)
qed

text \<open>
  Claim C9, as amended. \<^verbatim>\<open>harvestTables\<close> only computes a value. On an array it returns
  normally exactly when no element is \<^verbatim>\<open>undefined\<close> or \<^verbatim>\<open>null\<close> and the text of
  every element that passes the filter (truthy \<open>hasTextContent\<close> and truthy \<open>text\<close>) is a
  string; then the elements that do not pass the filter contribute nothing, whatever their
  fields hold. On every sequence of Page Results it returns the candidates of the typed
  function.
\<close>

theorem harvest_returns_on_harvestable_pages:
  "((\<exists>cs. harvestTables_any (JsArray ps) = Inr cs) \<longleftrightarrow> (\<forall>p\<in>set ps. harvestable p)) \<and>
   ((\<forall>p\<in>set ps. harvestable p) \<longrightarrow>
      harvestTables_any (JsArray ps) = harvestTables_any (JsArray (filter wanted ps))) \<and>
   harvestTables_any (JsArray (map page_value rs)) = Inr (map as_value_candidate (harvestTables rs))"
  using harvestTables_any_returns [of ps] harvestTables_any_wanted [of ps]
    harvestTables_any_page_results [of rs]
  by blast

theorem harvest_returns_on_harvestable_pages_witness:
  "harvestable (JsNumber 3) \<and>
   harvestable (JsObject [(''hasTextContent'', JsBoolean False), (''text'', JsNumber 5)]) \<and>
   \<not> wanted (JsObject [(''hasTextContent'', JsBoolean False), (''text'', JsNumber 5)]) \<and>
   harvestTables_any (JsArray untyped_pages) = Inr [] \<and>
   harvestTables_any (JsArray (map page_value example_pages_in)) =
     Inr [\<lparr>page = JsNumber 0, content = ''Revenue: 100, up 5%.''\<rparr>]"
proof -
  have h: "harvestable (JsNumber 3)"
    "harvestable (JsObject [(''hasTextContent'', JsBoolean False), (''text'', JsNumber 5)])"
    and nw: "\<not> wanted (JsNumber 3)"
    "\<not> wanted (JsObject [(''hasTextContent'', JsBoolean False), (''text'', JsNumber 5)])"
    by (simp_all add: harvestable_def wanted_def)
  then have all: "\<forall>p\<in>set untyped_pages. harvestable p"
    and none: "filter wanted untyped_pages = []"
    by (simp_all add: untyped_pages_def)
  have empty: "harvestTables_any (JsArray []) = Inr []"
    by (simp add: harvestTables_any_def)
  from harvest_returns_on_harvestable_pages [of untyped_pages example_pages_in] all
  have "harvestTables_any (JsArray untyped_pages) = harvestTables_any (JsArray (filter wanted untyped_pages))"
    and "harvestTables_any (JsArray (map page_value example_pages_in)) =
      Inr (map as_value_candidate (harvestTables example_pages_in))"
    by blast+
  with h nw none empty example_harvest show ?thesis
    by (simp add: as_value_candidate_def)
qed

theorem harvest_throws_on_numeric_text:
  "harvestTables_any
     (JsArray [JsObject [(''index'', JsNumber 0), (''hasTextContent'', JsBoolean True),
                         (''text'', JsNumber 5)]]) =
     Inl (JsError ''page.text.split is not a function'')"
  by (simp add: harvestTables_any_def page_candidates_def)

section \<open>Progress values\<close>

lemma round_half_even_floor: "\<lfloor>x\<rfloor> \<le> round_half_even x \<and> round_half_even x \<le> \<lfloor>x\<rfloor> + 1"
  by (simp add: round_half_even_def Let_def)

lemma round_half_even_of_int: "round_half_even (of_int n) = n"
  by (simp add: round_half_even_def)

lemma round_half_even_mono:
  assumes "x \<le> y"
  shows "round_half_even x \<le> round_half_even y"
proof (cases "\<lfloor>x\<rfloor> = \<lfloor>y\<rfloor>")
  case False
  with assms have "\<lfloor>x\<rfloor> + 1 \<le> \<lfloor>y\<rfloor>"
    using floor_mono [OF assms] by linarith
  with round_half_even_floor [of x] round_half_even_floor [of y] show ?thesis
    by linarith
next
  case True
  with assms have "x - of_int \<lfloor>x\<rfloor> \<le> y - of_int \<lfloor>y\<rfloor>"
    by simp
  with True show ?thesis
    by (auto simp: round_half_even_def Let_def)
qed

lemma round_half_even_error: "\<bar>of_int (round_half_even x) - x\<bar> \<le> 1 / 2"
proof -
  have "of_int \<lfloor>x\<rfloor> \<le> x" "x < of_int \<lfloor>x\<rfloor> + 1"
    by linarith+
  then show ?thesis
    by (auto simp: round_half_even_def Let_def abs_le_iff)
qed

lemma two_powi_pos: "0 < (2::rat) powi n"
  by simp

lemma two_powi_nat: "0 \<le> n \<Longrightarrow> (2::rat) powi n = of_int (2 ^ nat n)"
  by (simp add: power_int_def)

lemma two_powi_less_D: "(2::rat) powi m < 2 powi n \<Longrightarrow> m < n"
proof (rule ccontr)
  assume less: "(2::rat) powi m < 2 powi n" and "\<not> m < n"
  then have "n \<le> m" by simp
  then have "(2::rat) powi n \<le> 2 powi m"
    by (rule power_int_increasing) simp
  with less show False by simp
qed

lemma bitlen_rat:
  assumes "0 < a"
  shows "2 powi (bitlen a - 1) \<le> (of_int a :: rat)" and "(of_int a :: rat) < 2 powi (bitlen a)"
proof -
  from bitlen_bounds [OF assms] have lo: "2 ^ nat (bitlen a - 1) \<le> a" and hi: "a < 2 ^ nat (bitlen a)"
    by simp_all
  from hi assms have "0 < nat (bitlen a)"
    by (cases "nat (bitlen a)") simp_all
  then have pos: "0 \<le> bitlen a - 1" "0 \<le> bitlen a"
    by simp_all
  from lo have "(of_int (2 ^ nat (bitlen a - 1)) :: rat) \<le> of_int a"
    by (simp only: of_int_le_iff)
  then show "2 powi (bitlen a - 1) \<le> (of_int a :: rat)"
    by (simp add: two_powi_nat [OF pos(1)])
  from hi have "(of_int a :: rat) < of_int (2 ^ nat (bitlen a))"
    by (simp only: of_int_less_iff)
  then show "(of_int a :: rat) < 2 powi (bitlen a)"
    by (simp add: two_powi_nat [OF pos(2)])
qed

lemma binade_bounds:
  assumes "0 < x"
  shows "2 powi (binade x) \<le> x \<and> x < 2 powi (binade x + 1)"
proof -
  obtain a b where ab: "quotient_of x = (a, b)"
    by (cases "quotient_of x")
  then have b: "0 < b" and x: "x = of_int a / of_int b"
    by (simp_all add: quotient_of_denom_pos quotient_of_div)
  with assms have a: "0 < a"
    by (simp add: zero_less_divide_iff)
  define k where "k = bitlen a - bitlen b"
  note la = bitlen_rat [OF a] and lb = bitlen_rat [OF b]
  from b have b': "(0::rat) < of_int b" by simp
  have "(2::rat) powi (k - 1) * of_int b < 2 powi (k - 1) * 2 powi (bitlen b)"
    using lb(2) by simp
  also have "\<dots> = 2 powi (bitlen a - 1)"
    by (simp add: k_def flip: power_int_add)
  also note la(1)
  finally have lower: "2 powi (k - 1) < x"
    using b' by (simp add: x pos_less_divide_eq)
  have "of_int a < (2::rat) powi (bitlen a)"
    by (rule la(2))
  also have "\<dots> = 2 powi (k + 1) * 2 powi (bitlen b - 1)"
    by (simp add: k_def flip: power_int_add)
  also have "\<dots> \<le> 2 powi (k + 1) * of_int b"
    using lb(1) by simp
  finally have upper: "x < 2 powi (k + 1)"
    using b' by (simp add: x pos_divide_less_eq)
  have step: "(2::rat) powi (k - 1 + 1) = 2 powi k"
    by simp
  show ?thesis
  proof (cases "2 powi k \<le> x")
    case True
    with upper ab show ?thesis
      by (simp add: binade_def k_def)
  next
    case False
    with lower ab show ?thesis
      by (simp add: binade_def k_def)
  qed
qed

lemma binade_unique:
  assumes "0 < x" and "2 powi e \<le> x" and "x < 2 powi (e + 1)"
  shows "binade x = e"
proof -
  from binade_bounds [OF assms(1)] assms(2,3)
  have "(2::rat) powi (binade x) < 2 powi (e + 1)" "(2::rat) powi e < 2 powi (binade x + 1)"
    by linarith+
  then have "binade x < e + 1" "e < binade x + 1"
    by (auto dest: two_powi_less_D)
  then show ?thesis by simp
qed

lemma binade_mono:
  assumes "0 < x" and "x \<le> y"
  shows "binade x \<le> binade y"
proof -
  from assms have "0 < y" by simp
  from binade_bounds [OF assms(1)] binade_bounds [OF this] assms(2)
  have "(2::rat) powi (binade x) < 2 powi (binade y + 1)"
    by linarith
  then have "binade x < binade y + 1"
    by (rule two_powi_less_D)
  then show ?thesis by simp
qed

lemma fl_pos:
  "0 < x \<Longrightarrow>
   fl x = of_int (round_half_even (x / 2 powi (binade x - 52))) * 2 powi (binade x - 52)"
  by (simp add: fl_def Let_def)

lemma scaled_bounds:
  assumes "0 < x"
  shows "2 ^ 52 \<le> x / 2 powi (binade x - 52)" and "x / 2 powi (binade x - 52) \<le> 2 ^ 53"
proof -
  have split: "(2::rat) powi (binade x) = 2 ^ 52 * 2 powi (binade x - 52)"
    "(2::rat) powi (binade x + 1) = 2 ^ 53 * 2 powi (binade x - 52)"
    by (simp_all add: power_int_diff power_int_add)
  from binade_bounds [OF assms] show "2 ^ 52 \<le> x / 2 powi (binade x - 52)"
    unfolding split by (simp add: pos_le_divide_eq)
  from binade_bounds [OF assms] show "x / 2 powi (binade x - 52) \<le> 2 ^ 53"
    unfolding split by (simp add: pos_divide_le_eq)
qed

lemma fl_bounds:
  assumes "0 < x"
  shows "2 powi (binade x) \<le> fl x" and "fl x \<le> 2 powi (binade x + 1)"
proof -
  let ?q = "(2::rat) powi (binade x - 52)"
  have split: "(2::rat) powi (binade x) = 2 ^ 52 * ?q" "(2::rat) powi (binade x + 1) = 2 ^ 53 * ?q"
    by (simp_all add: power_int_diff power_int_add)
  have "round_half_even (of_int (2 ^ 52)) \<le> round_half_even (x / ?q)"
    using scaled_bounds(1) [OF assms] by (intro round_half_even_mono) simp
  then have "(2::rat) ^ 52 \<le> of_int (round_half_even (x / ?q))"
    unfolding round_half_even_of_int by (metis of_int_le_iff of_int_numeral of_int_power)
  then show "2 powi (binade x) \<le> fl x"
    unfolding split fl_pos [OF assms] by simp
  have "round_half_even (x / ?q) \<le> round_half_even (of_int (2 ^ 53))"
    using scaled_bounds(2) [OF assms] by (intro round_half_even_mono) simp
  then have "of_int (round_half_even (x / ?q)) \<le> (2::rat) ^ 53"
    unfolding round_half_even_of_int by (metis of_int_le_iff of_int_numeral of_int_power)
  then show "fl x \<le> 2 powi (binade x + 1)"
    unfolding split fl_pos [OF assms] by simp
qed

lemma fl_positive: "0 < x \<Longrightarrow> 0 < fl x"
  using fl_bounds(1) [of x] two_powi_pos [of "binade x"] by linarith

lemma fl_mono:
  assumes "0 < x" and "x \<le> y"
  shows "fl x \<le> fl y"
proof -
  from assms have y: "0 < y" by simp
  show ?thesis
  proof (cases "binade x = binade y")
    case True
    let ?q = "(2::rat) powi (binade y - 52)"
    from assms(2) have "x / ?q \<le> y / ?q"
      by (simp add: divide_right_mono)
    then have "round_half_even (x / ?q) \<le> round_half_even (y / ?q)"
      by (rule round_half_even_mono)
    then have "(of_int (round_half_even (x / ?q)) :: rat) * ?q \<le> of_int (round_half_even (y / ?q)) * ?q"
      by (intro mult_right_mono) simp_all
    then show ?thesis
      by (simp add: fl_pos [OF assms(1)] fl_pos [OF y] True)
  next
    case False
    with binade_mono [OF assms] have "binade x + 1 \<le> binade y"
      by simp
    then have "(2::rat) powi (binade x + 1) \<le> 2 powi (binade y)"
      by (rule power_int_increasing) simp
    with fl_bounds(2) [OF assms(1)] fl_bounds(1) [OF y] show ?thesis
      by linarith
  qed
qed

lemma fl_exact:
  assumes "0 < x" and "x / 2 powi (binade x - 52) = of_int n"
  shows "fl x = x"
proof -
  from assms(2) have "x = of_int n * 2 powi (binade x - 52)"
    by (simp add: divide_eq_eq)
  with assms show ?thesis
    by (simp add: fl_pos round_half_even_of_int)
qed

lemma fl_one: "fl 1 = 1"
proof -
  have b: "binade 1 = 0"
    by (rule binade_unique) simp_all
  show ?thesis
    by (rule fl_exact [of _ "2 ^ 52"]) (simp_all add: b power_int_minus)
qed

lemma fl_hundred: "fl 100 = 100"
proof -
  have b: "binade 100 = 6"
    by (rule binade_unique) simp_all
  show ?thesis
    by (rule fl_exact [of _ "100 * 2 ^ 46"]) (simp_all add: b power_int_minus)
qed

lemma Math_round_mono: "x \<le> y \<Longrightarrow> Math_round x \<le> Math_round y"
  by (simp add: Math_round_def floor_mono)

lemma progressPercent_mono:
  assumes "0 < i" and "i \<le> j" and "0 < n"
  shows "progressPercent i n \<le> progressPercent j n"
proof -
  from assms have pos: "(0::rat) < of_nat i / of_nat n"
    and le: "(of_nat i :: rat) / of_nat n \<le> of_nat j / of_nat n"
    by (simp_all add: divide_right_mono)
  from fl_mono [OF pos le] fl_positive [OF pos]
  have "0 < fl (of_nat i / of_nat n) * 100" "fl (of_nat i / of_nat n) * 100 \<le> fl (of_nat j / of_nat n) * 100"
    by simp_all
  then have "fl (fl (of_nat i / of_nat n) * 100) \<le> fl (fl (of_nat j / of_nat n) * 100)"
    by (rule fl_mono)
  then show ?thesis
    unfolding progressPercent_def by (rule Math_round_mono)
qed

lemma Math_round_hundred: "Math_round 100 = 100"
  unfolding Math_round_def by (rule floor_unique) simp_all

lemma progressPercent_last: "0 < n \<Longrightarrow> progressPercent n n = 100"
  by (simp add: progressPercent_def fl_one fl_hundred Math_round_hundred)

lemma fl_error:
  assumes "0 < x"
  shows "\<bar>fl x - x\<bar> \<le> x / 2 ^ 53"
proof -
  let ?q = "(2::rat) powi (binade x - 52)"
  have q: "0 < ?q" by simp
  have "fl x - x = (of_int (round_half_even (x / ?q)) - x / ?q) * ?q"
    by (simp add: fl_pos [OF assms] left_diff_distrib)
  then have "\<bar>fl x - x\<bar> = \<bar>of_int (round_half_even (x / ?q)) - x / ?q\<bar> * ?q"
    by (simp add: abs_mult)
  also have "\<dots> \<le> 1 / 2 * ?q"
    by (intro mult_right_mono round_half_even_error) simp
  also have "?q = 2 powi (binade x) / 2 ^ 52"
    by (simp add: power_int_diff)
  also have "1 / 2 * (2 powi (binade x) / 2 ^ 52) \<le> 1 / 2 * (x / 2 ^ 52)"
    using binade_bounds [OF assms] by (simp add: divide_right_mono)
  finally show ?thesis
    by simp
qed

lemma progress_error:
  assumes "0 < i" and "i \<le> n"
  shows "\<bar>fl (fl (of_nat i / of_nat n) * 100) - 100 * of_nat i / of_nat n\<bar> \<le> 1 / 2 ^ 44"
    and "0 < fl (fl (of_nat i / of_nat n) * 100)"
proof -
  define x :: rat where "x = of_nat i / of_nat n"
  define u :: rat where "u = 1 / 2 ^ 53"
  from assms have x: "0 < x" "x \<le> 1"
    by (simp_all add: x_def)
  have u: "u = 1 / 9007199254740992"
    by (simp add: u_def)
  from fl_error [OF x(1)] x(2) have a: "\<bar>fl x - x\<bar> \<le> u"
  proof -
    have "x / 2 ^ 53 \<le> 1 / 2 ^ 53"
      using x(2) by (intro divide_right_mono) simp_all
    with fl_error [OF x(1)] show ?thesis
      by (simp add: u_def)
  qed
  from fl_positive [OF x(1)] have b: "0 < fl x * 100"
    by simp
  then show "0 < fl (fl (of_nat i / of_nat n) * 100)"
    unfolding x_def by (rule fl_positive)
  from a x(2) have b200: "fl x * 100 \<le> 200"
    unfolding u by linarith
  have "fl x * 100 / 2 ^ 53 \<le> 200 / 2 ^ 53"
    using b200 by (intro divide_right_mono) simp_all
  with fl_error [OF b] have c: "\<bar>fl (fl x * 100) - fl x * 100\<bar> \<le> 200 * u"
    by (simp add: u_def)
  from a c have "\<bar>fl (fl x * 100) - 100 * x\<bar> \<le> 300 * u"
    by linarith
  also have "300 * u \<le> 1 / 2 ^ 44"
    by (simp add: u)
  finally show "\<bar>fl (fl (of_nat i / of_nat n) * 100) - 100 * of_nat i / of_nat n\<bar> \<le> 1 / 2 ^ 44"
    by (simp add: x_def)
qed

lemma progressPercent_thousand: "progressPercent 1 1000 = 0" "progressPercent 2 1000 = 0"
proof -
  have small: "progressPercent i 1000 = 0" if "0 < i" "i \<le> 2" for i
  proof -
    from that have "(of_nat i :: rat) \<le> 2" by simp
    then have "100 * (of_nat i :: rat) / of_nat 1000 \<le> 1 / 5"
      by simp
    moreover from progress_error [of i 1000] that
    have "\<bar>fl (fl (of_nat i / of_nat 1000) * 100) - 100 * of_nat i / of_nat 1000\<bar> \<le> 1 / 2 ^ 44"
      and pos: "0 < fl (fl (of_nat i / of_nat 1000) * 100)"
      by simp_all
    moreover have "(1::rat) / 2 ^ 44 \<le> 1 / 10"
      by simp
    ultimately have "fl (fl (of_nat i / of_nat 1000) * 100) \<le> 3 / 10"
      by linarith
    with pos show ?thesis
      unfolding progressPercent_def Math_round_def
      by (intro floor_unique) simp_all
  qed
  show "progressPercent 1 1000 = 0" "progressPercent 2 1000 = 0"
    by (simp_all add: small)
qed

lemma round_half_even_eval:
  assumes "of_int n \<le> x" and "x < of_int n + 1" and "x - of_int n < 1 / 2"
  shows "round_half_even x = n"
proof -
  from assms(1,2) have "\<lfloor>x\<rfloor> = n" by (intro floor_unique)
  with assms(3) show ?thesis by (simp add: round_half_even_def)
qed

text \<open>
  The value is that of the double precision computation, not the rounding of the exact
  quotient: \<open>29 / 200 * 100\<close> is the tie \<open>14.5\<close>, which \<^verbatim>\<open>Math.round\<close> would take to 15,
  but the product computed in double precision lies just below it.
\<close>

lemma progressPercent_below_tie: "progressPercent 29 200 = 14"
proof -
  define x1 :: rat where "x1 = 29 / 200"
  define x2 :: rat where "x2 = 5224175567749775 / 2 ^ 55 * 100"
  have b1: "binade x1 = - 3"
    unfolding x1_def by (rule binade_unique) (simp_all add: power_int_minus)
  have r1: "round_half_even (x1 / 2 powi (- 3 - 52)) = 5224175567749775"
    unfolding x1_def by (rule round_half_even_eval) (simp_all add: power_int_minus)
  have "fl x1 = of_int (round_half_even (x1 / 2 powi (binade x1 - 52))) * 2 powi (binade x1 - 52)"
    by (rule fl_pos) (simp add: x1_def)
  also have "\<dots> = 5224175567749775 * 2 powi (- 3 - 52)"
    unfolding b1 r1 by simp
  finally have f1: "fl x1 * 100 = x2"
    by (simp add: x2_def power_int_minus divide_simps)
  have b2: "binade x2 = 3"
    unfolding x2_def by (rule binade_unique) (simp_all add: power_int_minus)
  have r2: "round_half_even (x2 / 2 powi (3 - 52)) = 8162774324609023"
    unfolding x2_def by (rule round_half_even_eval) (simp_all add: power_int_minus)
  have "fl x2 = of_int (round_half_even (x2 / 2 powi (binade x2 - 52))) * 2 powi (binade x2 - 52)"
    by (rule fl_pos) (simp add: x2_def)
  also have "\<dots> = 8162774324609023 * 2 powi (3 - 52)"
    unfolding b2 r2 by simp
  finally have f2: "fl x2 = 8162774324609023 / 2 ^ 49"
    by (simp add: power_int_minus divide_simps)
  have m: "Math_round (8162774324609023 / 2 ^ 49) = 14"
    unfolding Math_round_def by (rule floor_unique) simp_all
  have "progressPercent 29 200 = Math_round (fl (fl x1 * 100))"
    by (simp add: progressPercent_def x1_def)
  then show ?thesis
    unfolding f1 f2 m .
qed

lemma progressPercent_step:
  assumes "0 < i" and "i < n" and "n \<le> 100"
  shows "progressPercent i n < progressPercent (Suc i) n"
proof -
  define y where "y = fl (fl (of_nat i / of_nat n) * 100)"
  define y' where "y' = fl (fl (of_nat (Suc i) / of_nat n) * 100)"
  from assms have n: "(0::rat) < of_nat n" by simp
  from progress_error(1) [of i n] assms have e: "\<bar>y - 100 * of_nat i / of_nat n\<bar> \<le> 1 / 2 ^ 44"
    by (simp add: y_def)
  from progress_error(1) [of "Suc i" n] assms
  have e': "\<bar>y' - 100 * of_nat (Suc i) / of_nat n\<bar> \<le> 1 / 2 ^ 44"
    by (simp add: y'_def)
  have diff: "100 * of_nat (Suc i) / of_nat n = 100 * of_nat i / of_nat n + 100 / (of_nat n :: rat)"
    by (simp add: add_divide_distrib distrib_left)
  show ?thesis
  proof (cases "n = 100")
    case True
    have c: "100 * of_nat k / of_nat n = (of_nat k :: rat)" for k
      using True by simp
    from e e' have "\<bar>y - of_nat i\<bar> \<le> 1 / 2 ^ 44" "\<bar>y' - of_nat (Suc i)\<bar> \<le> 1 / 2 ^ 44"
      unfolding c .
    moreover have small: "(1::rat) / 2 ^ 44 \<le> 1 / 4"
      by simp
    ultimately have "of_int (int i) \<le> y + 1 / 2" "y + 1 / 2 < of_int (int i) + 1"
      "of_int (int (Suc i)) \<le> y' + 1 / 2" "y' + 1 / 2 < of_int (int (Suc i)) + 1"
      unfolding of_int_of_nat_eq by linarith+
    then have "\<lfloor>y + 1 / 2\<rfloor> = int i" "\<lfloor>y' + 1 / 2\<rfloor> = int (Suc i)"
      by (simp_all only: floor_unique)
    then show ?thesis
      by (simp add: progressPercent_def Math_round_def y_def y'_def)
  next
    case False
    with assms have "n \<le> 99" by simp
    then have "(of_nat n :: rat) \<le> of_nat 99"
      by (simp only: of_nat_le_iff)
    then have "(of_nat n :: rat) \<le> 99" by simp
    with n have "100 / 99 \<le> 100 / (of_nat n :: rat)"
      by (intro divide_left_mono) simp_all
    moreover have "(1::rat) / 2 ^ 44 \<le> 1 / 1000"
      by simp
    ultimately have "y + 1 / 2 + 1 \<le> y' + 1 / 2"
      using e e' diff by linarith
    then have "\<lfloor>y + 1 / 2 + 1\<rfloor> \<le> \<lfloor>y' + 1 / 2\<rfloor>"
      by (rule floor_mono)
    moreover have "\<lfloor>y + 1 / 2 + 1\<rfloor> = \<lfloor>y + 1 / 2\<rfloor> + 1"
      using floor_add_int [of "y + 1 / 2" 1] by simp
    ultimately have "\<lfloor>y + 1 / 2\<rfloor> + 1 \<le> \<lfloor>y' + 1 / 2\<rfloor>"
      by (simp only:)
    then show ?thesis
      by (simp add: progressPercent_def Math_round_def y_def y'_def)
  qed
qed

lemma progressPercent_strict:
  assumes "0 < i" and "i < j" and "j \<le> n" and "n \<le> 100"
  shows "progressPercent i n < progressPercent j n"
proof -
  from assms have "progressPercent i n < progressPercent (Suc i) n"
    by (intro progressPercent_step) simp_all
  also from assms have "progressPercent (Suc i) n \<le> progressPercent j n"
    by (intro progressPercent_mono) simp_all
  finally show ?thesis .
qed

lemma reported_nth:
  "k < n \<Longrightarrow> reported (Some f) (Suc 0) n ! k = progressPercent (Suc k) n"
  by (simp add: reported_def del: upt_Suc)

lemma reported_length: "length (reported (Some f) (Suc 0) n) = n"
  by (simp add: reported_def del: upt_Suc)

lemma reported_sorted: "sorted (reported (Some f) (Suc 0) n)"
  unfolding sorted_iff_nth_mono reported_length
proof (intro allI impI)
  fix i j
  assume "i \<le> j" "j < n"
  then show "reported (Some f) (Suc 0) n ! i \<le> reported (Some f) (Suc 0) n ! j"
    by (simp add: reported_nth progressPercent_mono)
qed

lemma reported_strict: "n \<le> 100 \<Longrightarrow> sorted_wrt (<) (reported (Some f) (Suc 0) n)"
  unfolding sorted_wrt_iff_nth_less reported_length
proof (intro allI impI)
  fix i j
  assume "n \<le> 100" "i < j" "j < n"
  then show "reported (Some f) (Suc 0) n ! i < reported (Some f) (Suc 0) n ! j"
    by (simp add: reported_nth progressPercent_strict)
qed

lemma reported_last: "0 < n \<Longrightarrow> last (reported (Some f) (Suc 0) n) = 100"
proof -
  assume n: "0 < n"
  then have "reported (Some f) (Suc 0) n \<noteq> []"
    using reported_length [of f n] by auto
  then have "last (reported (Some f) (Suc 0) n) = reported (Some f) (Suc 0) n ! (n - 1)"
    by (simp add: last_conv_nth reported_length)
  with n show ?thesis
    by (simp add: reported_nth progressPercent_last)
qed

text \<open>
  Claim C3, as amended. With a callback that does not throw, an extraction of a document
  with \<open>N\<close> pages calls it exactly \<open>N\<close> times, the \<open>k\<close>-th time with
  \<^verbatim>\<open>Math.round((k / N) * 100)\<close>. These values never decrease, the last one is 100, and
  they increase strictly whenever \<open>N \<le> 100\<close>.
\<close>

theorem progress_after_each_page:
  assumes "pdfjsLib w \<noteq> None"
    and "ensurePdfWorker env w = (Inr u, w1)"
    and "arrayBuffer file = Inr data"
    and "openDocument env data w1 = (Inr pdf, w2)"
    and "\<forall>h. f h = None"
  shows "progressCalls (snd (extractPdfText env file (Some f) w)) =
           progressCalls w @ map (\<lambda>k. progressPercent k (numPages pdf)) [1..<Suc (numPages pdf)] \<and>
         length (map (\<lambda>k. progressPercent k (numPages pdf)) [1..<Suc (numPages pdf)]) = numPages pdf \<and>
         sorted (map (\<lambda>k. progressPercent k (numPages pdf)) [1..<Suc (numPages pdf)]) \<and>
         (0 < numPages pdf \<longrightarrow>
            last (map (\<lambda>k. progressPercent k (numPages pdf)) [1..<Suc (numPages pdf)]) = 100) \<and>
         (numPages pdf \<le> 100 \<longrightarrow>
            sorted_wrt (<) (map (\<lambda>k. progressPercent k (numPages pdf)) [1..<Suc (numPages pdf)]))"
proof -
  from ensurePdfWorker_trace [of env w] assms(2) have "progressCalls w1 = progressCalls w"
    by (simp add: extraction_trace_def)
  with openDocument_trace [OF assms(4)] have same: "progressCalls w2 = progressCalls w"
    by simp
  from assms(5) have nt: "never_throws (Some f)"
    by (simp add: never_throws_def)
  have r: "reported (Some f) (Suc 0) (numPages pdf) =
      map (\<lambda>k. progressPercent k (numPages pdf)) [Suc 0..<Suc (numPages pdf)]"
    by (simp add: reported_def del: upt_Suc)
  have "progressCalls (snd (extractPdfText env file (Some f) w)) =
      progressCalls w @ reported (Some f) 1 (numPages pdf)"
    unfolding extractPdfText_returns [OF assms(1-4) nt] by (simp add: same)
  with reported_length [of f "numPages pdf"] reported_sorted [of f "numPages pdf"]
    reported_last [of "numPages pdf" f] reported_strict [of "numPages pdf" f]
  show ?thesis
    unfolding r One_nat_def by blast
qed

lemma progressPercent_half: "progressPercent 1 2 = 50"
proof -
  have b: "binade (1 / 2) = - 1" "binade 50 = 5"
    by (rule binade_unique; simp)+
  have h1: "fl (1 / 2) = 1 / 2"
    by (rule fl_exact [of _ "2 ^ 52"]) (simp_all add: b power_int_minus)
  have h2: "fl 50 = 50"
    by (rule fl_exact [of _ "50 * 2 ^ 47"]) (simp_all add: b power_int_minus)
  have h3: "Math_round 50 = 50"
    unfolding Math_round_def by (rule floor_unique) simp_all
  show ?thesis
    by (simp add: progressPercent_def h1 h2 h3)
qed

theorem progress_after_each_page_witness:
  "numPages example_pdf = 2 \<and>
   progressCalls (snd (extractPdfText example_env example_file (Some quiet) example_world)) =
     [50, 100]"
proof -
  have ni: "\<not> canInlineWorker example_env"
    by (simp add: canInlineWorker_def example_env_def)
  have lib: "pdfjsLib example_world \<noteq> None"
    by (simp add: example_world_def)
  have ab: "arrayBuffer example_file = Inr [37, 80, 68]"
    by (simp add: example_file_def)
  have op: "openDocument example_env data w =
      (Inr example_pdf, w\<lparr>getDocumentCalls := getDocumentCalls w + 1\<rparr>)" for data w
    by (simp add: openDocument_def callGetDocument_def example_env_def)
  have q: "\<forall>h. quiet h = None"
    by (simp add: quiet_def)
  have n: "numPages example_pdf = 2"
    by (simp add: example_pdf_def)
  have upt: "[1..<Suc 2] = [1, 2::nat]"
    by code_simp
  from progress_after_each_page [OF lib example_ensure [OF ni] ab op q]
  have "progressCalls (snd (extractPdfText example_env example_file (Some quiet) example_world)) =
      progressCalls example_world @
      map (\<lambda>k. progressPercent k (numPages example_pdf)) [1..<Suc (numPages example_pdf)]"
    and "0 < numPages example_pdf \<longrightarrow>
      last (map (\<lambda>k. progressPercent k (numPages example_pdf)) [1..<Suc (numPages example_pdf)]) = 100"
    by blast+
  then have "progressCalls (snd (extractPdfText example_env example_file (Some quiet) example_world)) =
      [progressPercent 1 2, progressPercent 2 2]" and "progressPercent 2 2 = 100"
    unfolding n upt by (simp_all add: example_world_def)
  with n progressPercent_half show ?thesis
    by simp
qed

theorem progress_repeats_on_long_documents:
  "take 2 (progressCalls (snd (extractPdfText thousand_page_env example_file (Some quiet)
     example_world))) = [0, 0]"
proof -
  have ni: "\<not> canInlineWorker thousand_page_env"
    by (simp add: canInlineWorker_def thousand_page_env_def example_env_def)
  have lib: "pdfjsLib example_world \<noteq> None"
    by (simp add: example_world_def)
  have ab: "arrayBuffer example_file = Inr [37, 80, 68]"
    by (simp add: example_file_def)
  have op: "openDocument thousand_page_env data w =
      (Inr (example_pdf\<lparr>numPages := 1000\<rparr>), w\<lparr>getDocumentCalls := getDocumentCalls w + 1\<rparr>)" for data w
    by (simp add: openDocument_def callGetDocument_def thousand_page_env_def)
  have nt: "never_throws (Some quiet)"
    by (simp add: never_throws_def quiet_def)
  have "take 2 [Suc 0..<Suc 1000] = [Suc 0..<Suc 0 + 2]"
    by (rule take_upt) simp
  also have "\<dots> = [1, 2]"
    by code_simp
  finally have "take 2 (reported (Some quiet) (Suc 0) 1000) = [progressPercent 1 1000, progressPercent 2 1000]"
    by (simp add: reported_def take_map del: upt_Suc upt_rec_numeral)
  then show ?thesis
    unfolding extractPdfText_returns [OF lib example_ensure [OF ni] ab op nt]
    by (simp add: example_world_def progressPercent_thousand(2)
        progressPercent_thousand(1) [unfolded One_nat_def] del: upt_Suc upt_rec_numeral)
qed

end
